theory Spec2Isabelle
  imports Main "HOL-Library.AList"
begin

section \<open>Strings\<close>

text \<open>
  Python strings are modelled as \<open>string\<close>: lists of characters with the code points below
  256 (ASCII and Latin-1). On these \<open>str.lower\<close> works character by character: it adds 32
  to the code points 65 to 90 (\<open>A..Z\<close>), 192 to 214 and 216 to 222 (the accented capital
  letters), and leaves every other character alone.
\<close>

definition lower_char :: "char \<Rightarrow> char" where
  "lower_char c =
     (let n = (of_char c :: nat) in
      if (65 \<le> n \<and> n \<le> 90) \<or> (192 \<le> n \<and> n \<le> 214) \<or> (216 \<le> n \<and> n \<le> 222)
      then char_of (n + 32) else c)"

definition lower :: "string \<Rightarrow> string" where
  "lower s = map lower_char s"

text \<open>\<open>str(counter)\<close> for a non-negative counter: its decimal digits.\<close>

definition digit_char :: "nat \<Rightarrow> char" where
  "digit_char d = char_of (48 + d)"

function str_nat :: "nat \<Rightarrow> string" where
  "str_nat n = (if n < 10 then [digit_char n] else str_nat (n div 10) @ [digit_char (n mod 10)])"
  by pat_completeness auto
termination
  by (relation "measure (\<lambda>n. n)") auto

declare str_nat.simps [simp del]

text \<open>\<open>s.rfind(c)\<close>: the index of the last occurrence of \<open>c\<close>, \<open>None\<close> for Python's -1.\<close>

fun rfind :: "char \<Rightarrow> string \<Rightarrow> nat option" where
  "rfind c [] = None"
| "rfind c (x # xs) =
     (case rfind c xs of
        Some i \<Rightarrow> Some (Suc i)
      | None \<Rightarrow> if x = c then Some 0 else None)"

section \<open>Configuration constants\<close>

definition CONFIG_FILE_NAME :: string where
  "CONFIG_FILE_NAME = ''file_types.json''"

definition DEFAULT_OTHERS_FOLDER :: string where
  "DEFAULT_OTHERS_FOLDER = ''Others''"

definition LOG_FILE_NAME :: string where
  "LOG_FILE_NAME = ''organizer.log''"

text \<open>\<open>SCRIPT_NAME = Path(__file__).name\<close>; the script is \<open>organizer.py\<close>.\<close>

definition SCRIPT_NAME :: string where
  "SCRIPT_NAME = ''organizer.py''"

section \<open>Paths\<close>

text \<open>
  A \<open>pathlib\<close> path (POSIX flavour): the anchor (\<open>''''\<close> for a relative path, \<open>''/''\<close> or
  \<open>''//''\<close> for an absolute one) and the list of its components.
\<close>

datatype path = Path (anchor: string) (parts: "string list")

definition name_of :: "path \<Rightarrow> string" where
  "name_of p = (if parts p = [] then [] else last (parts p))"

definition parent :: "path \<Rightarrow> path" where
  "parent p = Path (anchor p) (butlast (parts p))"

text \<open>
  \<open>Path.suffix\<close> and \<open>Path.stem\<close>: with \<open>i = name.rfind('.')\<close>, the name is split at \<open>i\<close> when
  \<open>0 < i < len(name) - 1\<close>, and has no suffix otherwise.
\<close>

definition suffix :: "path \<Rightarrow> string" where
  "suffix p =
     (let nm = name_of p in
      case rfind (CHR ''.'') nm of
        Some i \<Rightarrow> if 0 < i \<and> i + 1 < length nm then drop i nm else []
      | None \<Rightarrow> [])"

definition stem :: "path \<Rightarrow> string" where
  "stem p =
     (let nm = name_of p in
      case rfind (CHR ''.'') nm of
        Some i \<Rightarrow> if 0 < i \<and> i + 1 < length nm then take i nm else nm
      | None \<Rightarrow> nm)"

text \<open>
  One more component: the path that \<open>iterdir\<close> makes of a listed name, and \<open>p / n\<close> where
  \<open>n\<close> is a single file name (one built from the stem and suffix of a name).
\<close>

definition child :: "path \<Rightarrow> string \<Rightarrow> path" where
  "child p n = Path (anchor p) (parts p @ [n])"

text \<open>
  \<open>p / s\<close> for an arbitrary string \<open>s\<close> (a category name of the configuration, the name of
  an entry): \<open>s\<close> is split at \<open>/\<close>, empty and \<open>.\<close> components are dropped, and an absolute
  \<open>s\<close> replaces \<open>p\<close>.
\<close>

fun split_slash :: "string \<Rightarrow> string list" where
  "split_slash [] = [[]]"
| "split_slash (c # cs) =
     (if c = CHR ''/'' then [] # split_slash cs
      else (case split_slash cs of
              [] \<Rightarrow> [[c]]
            | w # ws \<Rightarrow> (c # w) # ws))"

definition parse_parts :: "string \<Rightarrow> string list" where
  "parse_parts s = filter (\<lambda>w. w \<noteq> [] \<and> w \<noteq> ''.'') (split_slash s)"

definition parse_anchor :: "string \<Rightarrow> string" where
  "parse_anchor s =
     (if take 2 s = ''//'' \<and> take 3 s \<noteq> ''///'' then ''//''
      else if take 1 s = ''/'' then ''/''
      else [])"

definition joinpath :: "path \<Rightarrow> string \<Rightarrow> path" where
  "joinpath p s =
     (if parse_anchor s \<noteq> [] then Path (parse_anchor s) (parse_parts s)
      else Path (anchor p) (parts p @ parse_parts s))"

section \<open>Category resolver\<close>

text \<open>
  The configuration is a Python \<open>dict\<close> from category name to a list of extensions, iterated
  in insertion order: an association list. The cache is a \<open>dict\<close> from extension to
  category: an association list with distinct keys, where \<open>AList.update\<close> is the
  assignment \<open>d[k] = v\<close> and \<open>map_of\<close> the lookup.
\<close>

type_synonym file_types = "(string \<times> string list) list"
type_synonym ext_cache = "(string \<times> string) list"

text \<open>The nested iteration of \<open>get_category_for_extension\<close> that fills an empty cache.\<close>

fun build_exts :: "string \<Rightarrow> string list \<Rightarrow> ext_cache \<Rightarrow> ext_cache" where
  "build_exts category [] cache = cache"
| "build_exts category (ext # exts) cache =
     (let normalized_ext = lower ext in
      build_exts category exts
        (if map_of cache normalized_ext = None
         then AList.update normalized_ext category cache
         else cache))"

fun build_cache :: "file_types \<Rightarrow> ext_cache \<Rightarrow> ext_cache" where
  "build_cache [] cache = cache"
| "build_cache ((category, extensions) # rest) cache =
     build_cache rest (build_exts category extensions cache)"

text \<open>
  \<open>get_category_for_extension\<close> returns the category and the cache, which it may have
  filled in place.
\<close>

definition get_category_for_extension ::
    "string \<Rightarrow> file_types \<Rightarrow> ext_cache \<Rightarrow> string \<times> ext_cache" where
  "get_category_for_extension extension file_types_map extension_to_category_cache =
     (if extension = [] then (DEFAULT_OTHERS_FOLDER, extension_to_category_cache)
      else
        (case map_of extension_to_category_cache extension of
           Some c \<Rightarrow> (c, extension_to_category_cache)
         | None \<Rightarrow>
             (let cache' =
                    (if extension_to_category_cache = []
                     then build_cache file_types_map extension_to_category_cache
                     else extension_to_category_cache)
              in (case map_of cache' (lower extension) of
                    Some c \<Rightarrow> (c, cache')
                  | None \<Rightarrow> (DEFAULT_OTHERS_FOLDER, cache')))))"

text \<open>The nested iteration of \<open>organize_files\<close> that pre-populates the cache.\<close>

fun prepopulate_exts :: "string \<Rightarrow> string list \<Rightarrow> ext_cache \<Rightarrow> ext_cache" where
  "prepopulate_exts category_name [] cache = cache"
| "prepopulate_exts category_name (ext # exts) cache =
     prepopulate_exts category_name exts (AList.update (lower ext) category_name cache)"

fun prepopulate :: "file_types \<Rightarrow> ext_cache \<Rightarrow> ext_cache" where
  "prepopulate [] cache = cache"
| "prepopulate ((category_name, extensions_list) # rest) cache =
     prepopulate rest (prepopulate_exts category_name extensions_list cache)"

section \<open>Exceptions\<close>

text \<open>
  The exceptions that the file-system calls of the program raise, by the one distinction
  the program makes: an \<open>OSError\<close> (with its subclasses, such as \<open>PermissionError\<close> and
  \<open>FileExistsError\<close>), or an exception of another class (\<open>os.mkdir\<close> raises \<open>ValueError\<close>
  for a path with a NUL character). A call that can raise returns \<open>Inl\<close> of the exception.
\<close>

datatype exn = OSError | NonOSError

section \<open>Collision resolver\<close>

text \<open>
  \<open>handle_collision\<close> reads the file system only through \<open>Path.exists\<close>, here the
  parameter \<open>ex\<close>. \<open>Path.exists\<close> answers \<open>True\<close> or \<open>False\<close>, or raises: it re-raises
  every \<open>OSError\<close> of \<open>stat\<close> but \<open>ENOENT\<close>, \<open>ENOTDIR\<close>, \<open>EBADF\<close> and \<open>ELOOP\<close>, for
  instance for a name that is too long or a directory without search permission. The
  function has no \<open>try\<close>, so an exception of the check ends it: the outcome \<open>Inl e\<close>.
  The \<open>while\<close> loop has no bound, so it is a partial function: \<open>None\<close> stands for a loop
  that never ends.
\<close>

definition candidate_name :: "string \<Rightarrow> nat \<Rightarrow> string \<Rightarrow> string" where
  "candidate_name stm counter sfx = stm @ ''_'' @ str_nat counter @ sfx"

partial_function (option) collision_loop ::
    "(path \<Rightarrow> exn + bool) \<Rightarrow> path \<Rightarrow> string \<Rightarrow> string \<Rightarrow> nat \<Rightarrow> path \<Rightarrow> (exn + path) option" where
  "collision_loop ex par stm sfx counter new_path =
     (case ex new_path of
        Inl e \<Rightarrow> Some (Inl e)
      | Inr b \<Rightarrow>
          if b
          then collision_loop ex par stm sfx (counter + 1)
                 (child par (candidate_name stm (counter + 1) sfx))
          else Some (Inr new_path))"

definition handle_collision :: "(path \<Rightarrow> exn + bool) \<Rightarrow> path \<Rightarrow> (exn + path) option" where
  "handle_collision ex destination_path =
     (case ex destination_path of
        Inl e \<Rightarrow> Some (Inl e)
      | Inr b \<Rightarrow>
          if \<not> b then Some (Inr destination_path)
          else
            (let par = parent destination_path;
                 stm = stem destination_path;
                 sfx = suffix destination_path;
                 counter = 1
             in collision_loop ex par stm sfx counter
                  (child par (candidate_name stm counter sfx))))"

text \<open>
  The equation of the loop computes it on concrete inputs, whenever the loop ends there.
\<close>

declare collision_loop.simps [code]

text \<open>The \<open>N\<close>-th candidate for a destination path: \<open>parent / stem_N suffix\<close>.\<close>

definition candidate :: "path \<Rightarrow> nat \<Rightarrow> path" where
  "candidate p n = child (parent p) (candidate_name (stem p) n (suffix p))"

section \<open>File system\<close>

text \<open>
  The file system is a state \<open>'fs\<close> that the organizer reads and changes only through the
  operations below, which are parameters of the model. \<open>Path.exists\<close>, \<open>Path.is_dir\<close>,
  \<open>Path.is_file\<close> and \<open>os.listdir\<close> (behind \<open>Path.iterdir\<close>) read the state and answer or
  raise; \<open>Path.mkdir(parents=True, exist_ok=True)\<close> and \<open>shutil.move\<close> return the new state
  and the exception they raised, if any.
\<close>

record 'fs os_ops =
  exists_op :: "'fs \<Rightarrow> path \<Rightarrow> exn + bool"
  is_dir_op :: "'fs \<Rightarrow> path \<Rightarrow> exn + bool"
  is_file_op :: "'fs \<Rightarrow> path \<Rightarrow> exn + bool"
  iterdir_op :: "'fs \<Rightarrow> path \<Rightarrow> exn + string list"
  mkdir_op :: "'fs \<Rightarrow> path \<Rightarrow> 'fs \<times> exn option"
  move_op :: "'fs \<Rightarrow> path \<Rightarrow> path \<Rightarrow> 'fs \<times> exn option"

section \<open>Directory organizer\<close>

text \<open>
  The logger is a collaborator outside the organizer: each call of it is recorded as a
  message, in the order of the source. Handling a message creates no entry in the file
  system (\<open>setup_logging\<close> opens the log file before \<open>organize_files\<close> runs) and raises no
  exception into the caller.
\<close>

datatype event =
    Error_target_not_dir path
  | Info_scanning path bool
  | Debug_skipping string
  | Error_mkdir path
  | Info_dry_run_collision string string string
  | Info_dry_run string string string
  | Info_moved string string string
  | Error_move string
  | Debug_skip_directory string
  | Info_rule
  | Info_complete bool
  | Info_processed nat
  | Info_skipped nat
  | Info_log_saved

text \<open>The variables of \<open>organize_files\<close> that the loop reads and writes.\<close>

record 'fs scan_state =
  st_fs :: 'fs
  st_cache :: ext_cache
  files_moved :: nat
  files_skipped :: nat
  st_log :: "event list"

text \<open>
  A run ends normally, or with an exception that nothing caught; either way with the
  state it had reached.
\<close>

datatype 'fs outcome = Done "'fs scan_state" | Raised exn "'fs scan_state"

definition known_category_folders :: "file_types \<Rightarrow> string set" where
  "known_category_folders file_types_map =
     insert DEFAULT_OTHERS_FOLDER (set (map fst file_types_map))"

text \<open>
  The condition of the first \<open>if\<close> of the loop body. \<open>or\<close> and \<open>and\<close> evaluate from the
  left and stop early: \<open>is_dir\<close> is asked only when none of the three names matches, and
  then before the name is looked up among the category folders.
\<close>

definition is_skipped :: "'fs os_ops \<Rightarrow> 'fs \<Rightarrow> file_types \<Rightarrow> path \<Rightarrow> exn + bool" where
  "is_skipped os s file_types_map item_path =
     (if name_of item_path = SCRIPT_NAME \<or>
         name_of item_path = CONFIG_FILE_NAME \<or>
         name_of item_path = LOG_FILE_NAME
      then Inr True
      else
        (case is_dir_op os s item_path of
           Inl e \<Rightarrow> Inl e
         | Inr d \<Rightarrow> Inr (d \<and> name_of item_path \<in> known_category_folders file_types_map)))"

text \<open>The body of \<open>if item_path.is_file():\<close>.\<close>

definition organize_file ::
    "'fs os_ops \<Rightarrow> path \<Rightarrow> file_types \<Rightarrow> bool \<Rightarrow> path \<Rightarrow> 'fs scan_state \<Rightarrow> 'fs outcome option" where
  "organize_file os target_dir_path file_types_map dry_run item_path st =
     (let file_extension = lower (suffix item_path);
          (category_name, cache') =
             get_category_for_extension file_extension file_types_map (st_cache st);
          st1 = st\<lparr>st_cache := cache'\<rparr>;
          destination_folder_path = joinpath target_dir_path category_name;
          destination_file_path = joinpath destination_folder_path (name_of item_path)
      in
        if \<not> dry_run then
          (case mkdir_op os (st_fs st1) destination_folder_path of
             (s1, Some OSError) \<Rightarrow>
               Some (Done (st1\<lparr>st_fs := s1,
                               files_skipped := files_skipped st1 + 1,
                               st_log := st_log st1 @ [Error_mkdir destination_folder_path]\<rparr>))
           | (s1, Some NonOSError) \<Rightarrow> Some (Raised NonOSError (st1\<lparr>st_fs := s1\<rparr>))
           | (s1, None) \<Rightarrow>
               (case handle_collision (exists_op os s1) destination_file_path of
                  None \<Rightarrow> None
                | Some (Inl e) \<Rightarrow> Some (Raised e (st1\<lparr>st_fs := s1\<rparr>))
                | Some (Inr final_destination_file_path) \<Rightarrow>
                    (case move_op os s1 item_path final_destination_file_path of
                       (s2, Some e) \<Rightarrow>
                         Some (Done (st1\<lparr>st_fs := s2,
                                         files_skipped := files_skipped st1 + 1,
                                         st_log := st_log st1 @ [Error_move (name_of item_path)]\<rparr>))
                     | (s2, None) \<Rightarrow>
                         Some (Done (st1\<lparr>st_fs := s2,
                                         files_moved := files_moved st1 + 1,
                                         st_log := st_log st1 @
                                           [Info_moved (name_of item_path)
                                              (name_of destination_folder_path)
                                              (name_of final_destination_file_path)]\<rparr>)))))
        else
          (case exists_op os (st_fs st1) destination_file_path of
             Inl e \<Rightarrow> Some (Raised e st1)
           | Inr b \<Rightarrow>
               if b then
                 (case handle_collision (exists_op os (st_fs st1)) destination_file_path of
                    None \<Rightarrow> None
                  | Some (Inl e) \<Rightarrow> Some (Raised e st1)
                  | Some (Inr resolved_collision_path) \<Rightarrow>
                      Some (Done (st1\<lparr>files_moved := files_moved st1 + 1,
                                      st_log := st_log st1 @
                                        [Info_dry_run_collision (name_of item_path)
                                           (name_of destination_folder_path)
                                           (name_of resolved_collision_path)]\<rparr>)))
               else
                 Some (Done (st1\<lparr>files_moved := files_moved st1 + 1,
                                 st_log := st_log st1 @
                                   [Info_dry_run (name_of item_path)
                                      (name_of destination_folder_path)
                                      (name_of item_path)]\<rparr>))))"

text \<open>The body of the \<open>for\<close> loop, for one entry of the directory.\<close>

definition process_item ::
    "'fs os_ops \<Rightarrow> path \<Rightarrow> file_types \<Rightarrow> bool \<Rightarrow> path \<Rightarrow> 'fs scan_state \<Rightarrow> 'fs outcome option" where
  "process_item os target_dir_path file_types_map dry_run item_path st =
     (case is_skipped os (st_fs st) file_types_map item_path of
        Inl e \<Rightarrow> Some (Raised e st)
      | Inr skip \<Rightarrow>
          if skip then
            Some (Done (st\<lparr>st_log := st_log st @ [Debug_skipping (name_of item_path)]\<rparr>))
          else
            (case is_file_op os (st_fs st) item_path of
               Inl e \<Rightarrow> Some (Raised e st)
             | Inr f \<Rightarrow>
                 if f then organize_file os target_dir_path file_types_map dry_run item_path st
                 else
                   (case is_dir_op os (st_fs st) item_path of
                      Inl e \<Rightarrow> Some (Raised e st)
                    | Inr d \<Rightarrow>
                        if d then
                          Some (Done (st\<lparr>st_log := st_log st @
                                           [Debug_skip_directory (name_of item_path)]\<rparr>))
                        else Some (Done st))))"

text \<open>The \<open>for\<close> loop over the entries; an exception that nothing caught ends it.\<close>

fun scan ::
    "'fs os_ops \<Rightarrow> path \<Rightarrow> file_types \<Rightarrow> bool \<Rightarrow> path list \<Rightarrow> 'fs scan_state \<Rightarrow> 'fs outcome option" where
  "scan os target_dir_path file_types_map dry_run [] st = Some (Done st)"
| "scan os target_dir_path file_types_map dry_run (item_path # rest) st =
     (case process_item os target_dir_path file_types_map dry_run item_path st of
        None \<Rightarrow> None
      | Some (Raised e st') \<Rightarrow> Some (Raised e st')
      | Some (Done st') \<Rightarrow> scan os target_dir_path file_types_map dry_run rest st')"

text \<open>The messages after the loop.\<close>

definition summary :: "bool \<Rightarrow> nat \<Rightarrow> nat \<Rightarrow> event list" where
  "summary dry_run moved skipped =
     [Info_rule, Info_complete dry_run, Info_processed moved, Info_skipped skipped] @
     (if \<not> dry_run \<and> moved > 0 then [Info_log_saved] else [])"

text \<open>
  \<open>organize_files\<close>, from the file system \<open>s0\<close>. Before the loop the source has not yet
  assigned the cache and the counters: the outcomes of the first check show them empty
  and at zero. \<open>iterdir\<close> lists the directory (\<open>os.listdir\<close>) when the loop asks for the
  first entry, and makes each name a child of the target.
\<close>

definition organize_files ::
    "'fs os_ops \<Rightarrow> 'fs \<Rightarrow> path \<Rightarrow> file_types \<Rightarrow> bool \<Rightarrow> 'fs outcome option" where
  "organize_files os s0 target_dir_path file_types_map dry_run =
     (case is_dir_op os s0 target_dir_path of
        Inl e \<Rightarrow>
          Some (Raised e \<lparr>st_fs = s0, st_cache = [], files_moved = 0, files_skipped = 0,
                          st_log = []\<rparr>)
      | Inr d \<Rightarrow>
          if \<not> d then
            Some (Done \<lparr>st_fs = s0, st_cache = [], files_moved = 0, files_skipped = 0,
                        st_log = [Error_target_not_dir target_dir_path]\<rparr>)
          else
            (let extension_to_category_cache = prepopulate file_types_map [];
                 st0 = \<lparr>st_fs = s0, st_cache = extension_to_category_cache,
                        files_moved = 0, files_skipped = 0,
                        st_log = [Info_scanning target_dir_path dry_run]\<rparr>
             in case iterdir_op os s0 target_dir_path of
                  Inl e \<Rightarrow> Some (Raised e st0)
                | Inr names \<Rightarrow>
                    (case scan os target_dir_path file_types_map dry_run
                            (map (child target_dir_path) names) st0 of
                       Some (Done st) \<Rightarrow>
                         Some (Done (st\<lparr>st_log := st_log st @
                                           summary dry_run (files_moved st) (files_skipped st)\<rparr>))
                     | r \<Rightarrow> r)))"

section \<open>A reference file system\<close>

text \<open>
  A small file system on which the model runs: the entries with their types, in listing
  order, the directories without write permission and the directories without search
  permission. The root \<open>Path a []\<close> is a directory; paths are taken without \<open>..\<close>
  components and symbolic links. \<open>Special\<close> is an entry that is neither a regular file nor
  a directory.
\<close>

datatype kind = File | Dir | Special

record sim_fs =
  entries :: "(path \<times> kind) list"
  readonly :: "path list"
  unsearchable :: "path list"

definition NAME_MAX :: nat where
  "NAME_MAX = 255"

text \<open>The length of a name in bytes (UTF-8): two bytes for a code point from 128 on.\<close>

definition utf8_length :: "string \<Rightarrow> nat" where
  "utf8_length w = length w + length (filter (\<lambda>c. 128 \<le> (of_char c :: nat)) w)"

text \<open>
  \<open>stat\<close> walks the components from the root: a missing or non-directory component on the
  way is \<open>ENOENT\<close> or \<open>ENOTDIR\<close> (no entry: \<open>Inr None\<close>), a directory without search
  permission is \<open>EACCES\<close> and a component of more than \<open>NAME_MAX\<close> bytes is
  \<open>ENAMETOOLONG\<close> (both \<open>OSError\<close>).
\<close>

fun sim_lookup :: "sim_fs \<Rightarrow> string \<Rightarrow> string list \<Rightarrow> string list \<Rightarrow> exn + kind option" where
  "sim_lookup s a pre [] =
     Inr (if pre = [] then Some Dir else map_of (entries s) (Path a pre))"
| "sim_lookup s a pre (c # cs) =
     (if pre \<noteq> [] \<and> map_of (entries s) (Path a pre) \<noteq> Some Dir then Inr None
      else if Path a pre \<in> set (unsearchable s) then Inl OSError
      else if NAME_MAX < utf8_length c then Inl OSError
      else sim_lookup s a (pre @ [c]) cs)"

definition has_nul :: "path \<Rightarrow> bool" where
  "has_nul p = list_ex (\<lambda>w. CHR 0x00 \<in> set w) (parts p)"

text \<open>
  \<open>stat\<close> raises \<open>ValueError\<close> for a path with a NUL character; \<open>exists\<close>, \<open>is_dir\<close> and
  \<open>is_file\<close> catch it and answer \<open>False\<close>.
\<close>

definition sim_stat :: "sim_fs \<Rightarrow> path \<Rightarrow> exn + kind option" where
  "sim_stat s p = (if has_nul p then Inr None else sim_lookup s (anchor p) [] (parts p))"

definition sim_exists :: "sim_fs \<Rightarrow> path \<Rightarrow> exn + bool" where
  "sim_exists s p = (case sim_stat s p of Inl e \<Rightarrow> Inl e | Inr k \<Rightarrow> Inr (k \<noteq> None))"

definition sim_is_dir :: "sim_fs \<Rightarrow> path \<Rightarrow> exn + bool" where
  "sim_is_dir s p = (case sim_stat s p of Inl e \<Rightarrow> Inl e | Inr k \<Rightarrow> Inr (k = Some Dir))"

definition sim_is_file :: "sim_fs \<Rightarrow> path \<Rightarrow> exn + bool" where
  "sim_is_file s p = (case sim_stat s p of Inl e \<Rightarrow> Inl e | Inr k \<Rightarrow> Inr (k = Some File))"

definition sim_iterdir :: "sim_fs \<Rightarrow> path \<Rightarrow> exn + string list" where
  "sim_iterdir s d =
     (if has_nul d then Inl NonOSError
      else
        (case sim_lookup s (anchor d) [] (parts d) of
           Inl e \<Rightarrow> Inl e
         | Inr k \<Rightarrow>
             if k = Some Dir
             then Inr (map (\<lambda>e. name_of (fst e))
                        (filter (\<lambda>e. parts (fst e) \<noteq> [] \<and> parent (fst e) = d) (entries s)))
             else Inl OSError))"

text \<open>
  \<open>mkdir(parents=True, exist_ok=True)\<close>: \<open>ValueError\<close> for a NUL character; otherwise the
  missing directories are created from the top, and a component that cannot be looked up,
  or that exists and is not a directory, or whose parent has no write permission, gives
  an \<open>OSError\<close>.
\<close>

fun sim_mkdir_parts :: "sim_fs \<Rightarrow> string \<Rightarrow> string list \<Rightarrow> string list \<Rightarrow> sim_fs \<times> exn option" where
  "sim_mkdir_parts s a pre [] = (s, None)"
| "sim_mkdir_parts s a pre (c # cs) =
     (let q = Path a (pre @ [c]) in
      if Path a pre \<in> set (unsearchable s) \<or> NAME_MAX < utf8_length c then (s, Some OSError)
      else if map_of (entries s) q = Some Dir then sim_mkdir_parts s a (pre @ [c]) cs
      else if map_of (entries s) q \<noteq> None \<or> Path a pre \<in> set (readonly s) then (s, Some OSError)
      else sim_mkdir_parts (s\<lparr>entries := entries s @ [(q, Dir)]\<rparr>) a (pre @ [c]) cs)"

definition sim_mkdir :: "sim_fs \<Rightarrow> path \<Rightarrow> sim_fs \<times> exn option" where
  "sim_mkdir s p =
     (if has_nul p then (s, Some NonOSError)
      else sim_mkdir_parts s (anchor p) [] (parts p))"

text \<open>
  \<open>shutil.move\<close>: \<open>ValueError\<close> for a NUL character. A destination that is a directory
  receives the source under its own name, unless that name is taken there. The move is a
  rename of the entry and of what lies below it; it needs the source, the destination's
  directory and write permission on both directories, and it replaces a destination that
  is not a directory.
\<close>

definition rebase :: "path \<Rightarrow> path \<Rightarrow> path \<Rightarrow> path" where
  "rebase src dst q =
     (if anchor q = anchor src \<and> take (length (parts src)) (parts q) = parts src
      then Path (anchor dst) (parts dst @ drop (length (parts src)) (parts q))
      else q)"

definition sim_rename :: "sim_fs \<Rightarrow> path \<Rightarrow> path \<Rightarrow> sim_fs \<times> exn option" where
  "sim_rename s src dst =
     (case (sim_stat s src, sim_stat s dst, sim_stat s (parent dst)) of
        (Inr (Some k), Inr d, Inr (Some Dir)) \<Rightarrow>
          if parts src = [] \<or> parts dst = [] \<or> d = Some Dir \<or>
             parent src \<in> set (readonly s) \<or> parent dst \<in> set (readonly s)
          then (s, Some OSError)
          else (s\<lparr>entries :=
                    map (\<lambda>e. (rebase src dst (fst e), snd e))
                      (filter (\<lambda>e. fst e \<noteq> dst) (entries s))\<rparr>, None)
      | _ \<Rightarrow> (s, Some OSError))"

definition sim_move :: "sim_fs \<Rightarrow> path \<Rightarrow> path \<Rightarrow> sim_fs \<times> exn option" where
  "sim_move s src dst =
     (if has_nul src \<or> has_nul dst then (s, Some NonOSError)
      else if sim_stat s dst = Inr (Some Dir) then
        (if sim_stat s (child dst (name_of src)) = Inr None
         then sim_rename s src (child dst (name_of src))
         else (s, Some OSError))
      else sim_rename s src dst)"

definition sim_os :: "sim_fs os_ops" where
  "sim_os = \<lparr>exists_op = sim_exists, is_dir_op = sim_is_dir, is_file_op = sim_is_file,
             iterdir_op = sim_iterdir, mkdir_op = sim_mkdir, move_op = sim_move\<rparr>"

section \<open>Notions of the specification and sample data\<close>

text \<open>
  The extensions of a configuration as the index sees them: each one lowercased. An
  extension is absent from every category's list, up to letter case, when its lowercase
  form is not in this set.
\<close>

definition normalized_exts :: "file_types \<Rightarrow> string set" where
  "normalized_exts file_types_map = lower ` (\<Union>es \<in> snd ` set file_types_map. set es)"

text \<open>The state in which a run ended.\<close>

fun final_state :: "'fs outcome \<Rightarrow> 'fs scan_state" where
  "final_state (Done st) = st"
| "final_state (Raised e st) = st"

text \<open>Sample configurations.\<close>

definition demo_types :: file_types where
  "demo_types = [(''Images'', [''.jpg'', ''.PNG'']), (''Documents'', [''.txt''])]"

definition demo_dup_types :: file_types where
  "demo_dup_types = [(''Images'', [''.jpg'']), (''Documents'', [''.jpg''])]"

text \<open>A sample target directory: two files and an empty subdirectory.\<close>

definition demo_target :: path where
  "demo_target = Path ''/'' [''t'']"

definition demo_fs :: sim_fs where
  "demo_fs =
     \<lparr>entries = [(demo_target, Dir),
                 (child demo_target ''photo.JPG'', File),
                 (child demo_target ''notes.txt'', File),
                 (child demo_target ''archive'', Dir)],
      readonly = [], unsearchable = []\<rparr>"

text \<open>A target with a file whose name is taken twice in its category folder.\<close>

definition demo_images :: path where
  "demo_images = child demo_target ''Images''"

definition demo_collision_fs :: sim_fs where
  "demo_collision_fs =
     \<lparr>entries = [(demo_target, Dir),
                 (child demo_target ''image.png'', File),
                 (demo_images, Dir),
                 (child demo_images ''image.png'', File),
                 (child demo_images ''image_1.png'', File)],
      readonly = [], unsearchable = []\<rparr>"

text \<open>
  The category folder exists and holds a directory, and the user may list it but not
  search it.
\<close>

definition demo_locked_fs :: sim_fs where
  "demo_locked_fs =
     \<lparr>entries = [(demo_target, Dir),
                 (child demo_target ''photo.jpg'', File),
                 (demo_images, Dir),
                 (child demo_images ''Others'', Dir)],
      readonly = [], unsearchable = [demo_images]\<rparr>"

text \<open>A file name of 255 bytes, in the target and in its category folder.\<close>

definition demo_long_name :: string where
  "demo_long_name = replicate 251 (CHR ''a'') @ ''.png''"

definition demo_long_fs :: sim_fs where
  "demo_long_fs =
     \<lparr>entries = [(demo_target, Dir),
                 (child demo_target demo_long_name, File),
                 (demo_images, Dir),
                 (child demo_images demo_long_name, File)],
      readonly = [], unsearchable = []\<rparr>"

text \<open>A file whose extension two categories list.\<close>

definition demo_dup_fs :: sim_fs where
  "demo_dup_fs =
     \<lparr>entries = [(demo_target, Dir), (child demo_target ''photo.JPG'', File)],
      readonly = [], unsearchable = []\<rparr>"

text \<open>A target that does not exist, with a name of 256 bytes.\<close>

definition demo_long_target :: path where
  "demo_long_target = Path ''/'' [replicate 256 (CHR ''t'')]"

text \<open>A target with the three protected files and two category folders.\<close>

definition demo_protected_fs :: sim_fs where
  "demo_protected_fs =
     \<lparr>entries = [(demo_target, Dir),
                 (child demo_target ''organizer.py'', File),
                 (child demo_target ''file_types.json'', File),
                 (child demo_target ''organizer.log'', File),
                 (child demo_target ''Images'', Dir),
                 (child demo_target ''Others'', Dir),
                 (child demo_target ''photo.JPG'', File)],
      readonly = [], unsearchable = []\<rparr>"


text \<open>A \<open>move\<close> that ruins the file system when its source has a protected name.\<close>

definition demo_guarded_move ::
    "sim_fs \<Rightarrow> path \<Rightarrow> path \<Rightarrow> sim_fs \<times> exn option" where
  "demo_guarded_move s src dst =
     (if name_of src \<in> {SCRIPT_NAME, CONFIG_FILE_NAME, LOG_FILE_NAME}
      then (s\<lparr>entries := []\<rparr>, Some NonOSError)
      else sim_move s src dst)"

text \<open>A target without write permission.\<close>

definition demo_readonly_fs :: sim_fs where
  "demo_readonly_fs =
     \<lparr>entries = [(demo_target, Dir),
                 (child demo_target ''photo.JPG'', File),
                 (child demo_target ''notes.txt'', File),
                 (child demo_target ''Documents'', Dir)],
      readonly = [demo_target], unsearchable = []\<rparr>"

text \<open>A category name with a NUL character.\<close>

definition demo_nul_types :: file_types where
  "demo_nul_types = [(''Docs'' @ [CHR 0x00], [''.txt''])]"


section \<open>Strings and candidate names\<close>

lemma lower_char_idem: "lower_char (lower_char c) = lower_char c"
  by (auto simp add: lower_char_def Let_def)

lemma lower_idem: "lower (lower s) = lower s"
  by (simp add: lower_def lower_char_idem)

lemma digit_char_inj: "d < 10 \<Longrightarrow> e < 10 \<Longrightarrow> digit_char d = digit_char e \<Longrightarrow> d = e"
  by (simp add: digit_char_def char_of_eq_iff take_bit_eq_mod)

lemma str_nat_length: "10 \<le> n \<Longrightarrow> 2 \<le> length (str_nat n)"
  by (subst str_nat.simps, subst str_nat.simps) (simp split: if_splits)

lemma str_nat_inj: "str_nat n = str_nat m \<Longrightarrow> n = m"
proof (induction n arbitrary: m rule: str_nat.induct)
  case (1 n)
  show ?case
  proof (cases "n < 10")
    case small_n: True
    show ?thesis
    proof (cases "m < 10")
      case True
      with small_n "1.prems" show ?thesis
        by (simp add: str_nat.simps[of n] str_nat.simps[of m] digit_char_inj)
    next
      case False
      then have "2 \<le> length (str_nat m)" by (simp add: str_nat_length)
      moreover have "length (str_nat n) = 1" using small_n by (simp add: str_nat.simps[of n])
      ultimately show ?thesis using "1.prems" by simp
    qed
  next
    case big_n: False
    show ?thesis
    proof (cases "m < 10")
      case True
      from big_n have "2 \<le> length (str_nat n)" by (simp add: str_nat_length)
      moreover have "length (str_nat m) = 1" using True by (simp add: str_nat.simps[of m])
      ultimately show ?thesis using "1.prems" by simp
    next
      case False
      with big_n "1.prems" have eq: "str_nat (n div 10) = str_nat (m div 10)"
        and dg: "digit_char (n mod 10) = digit_char (m mod 10)"
        by (simp_all add: str_nat.simps[of n] str_nat.simps[of m])
      from "1.IH"[OF big_n eq] have "n div 10 = m div 10" .
      moreover from dg have "n mod 10 = m mod 10" by (simp add: digit_char_inj)
      ultimately show ?thesis by (metis div_mult_mod_eq)
    qed
  qed
qed

lemma candidate_name_inj: "candidate_name s n t = candidate_name s m t \<Longrightarrow> n = m"
  by (simp add: candidate_name_def str_nat_inj)

lemma child_inj: "child p x = child p y \<Longrightarrow> x = y"
  by (simp add: child_def)

lemma candidate_inj: "inj (candidate p)"
  by (rule injI) (auto simp add: candidate_def dest: child_inj candidate_name_inj)

section \<open>The collision resolver\<close>

text \<open>
  From the \<open>k\<close>-th candidate on: if the candidates before the \<open>n\<close>-th exist and the check of
  the \<open>n\<close>-th does not answer \<open>True\<close>, the loop ends there, with the candidate or with the
  exception of its check.
\<close>

lemma loop_reach:
  assumes "k \<le> n" and "ex (child par (candidate_name stm n sfx)) \<noteq> Inr True"
    and "\<forall>j. k \<le> j \<and> j < n \<longrightarrow> ex (child par (candidate_name stm j sfx)) = Inr True"
  shows "collision_loop ex par stm sfx k (child par (candidate_name stm k sfx)) =
         Some (case ex (child par (candidate_name stm n sfx)) of
                 Inl e \<Rightarrow> Inl e
               | Inr b \<Rightarrow> Inr (child par (candidate_name stm n sfx)))"
  using assms(1,3)
proof (induction k rule: inc_induct)
  case base
  with assms(2) show ?case
    by (subst collision_loop.simps) (auto split: sum.splits)
next
  case (step j)
  then have "ex (child par (candidate_name stm j sfx)) = Inr True" by simp
  moreover have "collision_loop ex par stm sfx (Suc j) (child par (candidate_name stm (Suc j) sfx)) =
         Some (case ex (child par (candidate_name stm n sfx)) of
                 Inl e \<Rightarrow> Inl e
               | Inr b \<Rightarrow> Inr (child par (candidate_name stm n sfx)))"
    using step by simp
  ultimately show ?case by (subst collision_loop.simps) simp
qed

text \<open>Whatever the loop ends with, it ends at a candidate that all earlier ones led to.\<close>

lemma loop_result:
  assumes "collision_loop ex par stm sfx k p = Some r"
  shows "p = child par (candidate_name stm k sfx) \<longrightarrow>
         (\<exists>n\<ge>k. (\<forall>j. k \<le> j \<and> j < n \<longrightarrow> ex (child par (candidate_name stm j sfx)) = Inr True) \<and>
            (case r of
               Inl e \<Rightarrow> ex (child par (candidate_name stm n sfx)) = Inl e
             | Inr q \<Rightarrow> q = child par (candidate_name stm n sfx) \<and> ex q = Inr False))"
  using assms
proof (rule collision_loop.raw_induct[where P = "\<lambda>ex par stm sfx k p r.
         p = child par (candidate_name stm k sfx) \<longrightarrow>
         (\<exists>n\<ge>k. (\<forall>j. k \<le> j \<and> j < n \<longrightarrow> ex (child par (candidate_name stm j sfx)) = Inr True) \<and>
            (case r of
               Inl e \<Rightarrow> ex (child par (candidate_name stm n sfx)) = Inl e
             | Inr q \<Rightarrow> q = child par (candidate_name stm n sfx) \<and> ex q = Inr False))", rotated],
       goal_cases)
  case (1 lp ex par stm sfx k p r)
  show ?case
  proof (intro impI)
    assume p: "p = child par (candidate_name stm k sfx)"
    let ?goal = "\<exists>n\<ge>k. (\<forall>j. k \<le> j \<and> j < n \<longrightarrow> ex (child par (candidate_name stm j sfx)) = Inr True) \<and>
            (case r of
               Inl e \<Rightarrow> ex (child par (candidate_name stm n sfx)) = Inl e
             | Inr q \<Rightarrow> q = child par (candidate_name stm n sfx) \<and> ex q = Inr False)"
    show ?goal
    proof (cases "ex p")
      case (Inl e)
      with 1(2) have "r = Inl e" by simp
      with Inl p show ?thesis by (intro exI[of _ k]) auto
    next
      case (Inr b)
      show ?thesis
      proof (cases b)
        case False
        with Inr 1(2) have "r = Inr p" by simp
        with Inr False p show ?thesis by (intro exI[of _ k]) auto
      next
        case True
        with Inr 1(2) have "lp ex par stm sfx (k + 1) (child par (candidate_name stm (k + 1) sfx)) = Some r"
          by simp
        from 1(1)[OF this] obtain n where n: "k + 1 \<le> n"
          "\<forall>j. k + 1 \<le> j \<and> j < n \<longrightarrow> ex (child par (candidate_name stm j sfx)) = Inr True"
          "case r of
               Inl e \<Rightarrow> ex (child par (candidate_name stm n sfx)) = Inl e
             | Inr q \<Rightarrow> q = child par (candidate_name stm n sfx) \<and> ex q = Inr False"
          by auto
        have "\<forall>j. k \<le> j \<and> j < n \<longrightarrow> ex (child par (candidate_name stm j sfx)) = Inr True"
        proof (intro allI impI)
          fix j assume "k \<le> j \<and> j < n"
          then consider "j = k" | "k + 1 \<le> j \<and> j < n" by linarith
          then show "ex (child par (candidate_name stm j sfx)) = Inr True"
            using True Inr p n(2) by cases auto
        qed
        with n show ?thesis by (intro exI[of _ n]) simp
      qed
    qed
  qed
qed

lemma handle_collision_free: "ex p = Inr False \<Longrightarrow> handle_collision ex p = Some (Inr p)"
  by (simp add: handle_collision_def)

lemma handle_collision_raise: "ex p = Inl e \<Longrightarrow> handle_collision ex p = Some (Inl e)"
  by (simp add: handle_collision_def)

lemma handle_collision_unfold:
  "ex p = Inr True \<Longrightarrow> handle_collision ex p =
     collision_loop ex (parent p) (stem p) (suffix p) 1
       (child (parent p) (candidate_name (stem p) 1 (suffix p)))"
  unfolding handle_collision_def Let_def by simp

text \<open>
  An existing destination whose candidates before the \<open>n\<close>-th exist, and whose \<open>n\<close>-th does
  not answer \<open>True\<close>: the outcome is that candidate, or the exception of its check.
\<close>

lemma handle_collision_first:
  assumes "ex p = Inr True" and "1 \<le> n" and "ex (candidate p n) \<noteq> Inr True"
    and "\<forall>j. 1 \<le> j \<and> j < n \<longrightarrow> ex (candidate p j) = Inr True"
  shows "handle_collision ex p =
         Some (case ex (candidate p n) of Inl e \<Rightarrow> Inl e | Inr b \<Rightarrow> Inr (candidate p n))"
proof -
  have "collision_loop ex (parent p) (stem p) (suffix p) 1
      (child (parent p) (candidate_name (stem p) 1 (suffix p))) =
      Some (case ex (child (parent p) (candidate_name (stem p) n (suffix p))) of
              Inl e \<Rightarrow> Inl e
            | Inr b \<Rightarrow> Inr (child (parent p) (candidate_name (stem p) n (suffix p))))"
  proof (rule loop_reach)
    show "1 \<le> n" by (rule assms(2))
    show "ex (child (parent p) (candidate_name (stem p) n (suffix p))) \<noteq> Inr True"
      using assms(3) unfolding candidate_def .
    show "\<forall>j. 1 \<le> j \<and> j < n \<longrightarrow> ex (child (parent p) (candidate_name (stem p) j (suffix p))) = Inr True"
      using assms(4) unfolding candidate_def .
  qed
  then show ?thesis
    using handle_collision_unfold[of ex p] assms(1) unfolding candidate_def by simp
qed

lemma handle_collision_first_free:
  assumes "ex p = Inr True" and "1 \<le> n" and "ex (candidate p n) = Inr False"
    and "\<forall>j. 1 \<le> j \<and> j < n \<longrightarrow> ex (candidate p j) = Inr True"
  shows "handle_collision ex p = Some (Inr (candidate p n))"
  using handle_collision_first[of ex p n] assms by simp

lemma handle_collision_first_raise:
  assumes "ex p = Inr True" and "1 \<le> n" and "ex (candidate p n) = Inl e"
    and "\<forall>j. 1 \<le> j \<and> j < n \<longrightarrow> ex (candidate p j) = Inr True"
  shows "handle_collision ex p = Some (Inl e)"
  using handle_collision_first[of ex p n] assms by simp

text \<open>What an outcome of \<open>handle_collision\<close> tells about the checks.\<close>

lemma handle_collision_returned:
  assumes "handle_collision ex p = Some (Inr q)"
  shows "ex q = Inr False \<and>
         (q = p \<or> (ex p = Inr True \<and>
            (\<exists>n\<ge>1. q = candidate p n \<and> (\<forall>j. 1 \<le> j \<and> j < n \<longrightarrow> ex (candidate p j) = Inr True))))"
proof (cases "ex p")
  case (Inl e)
  with assms show ?thesis by (simp add: handle_collision_raise)
next
  case (Inr b)
  show ?thesis
  proof (cases b)
    case False
    with Inr assms show ?thesis by (simp add: handle_collision_free)
  next
    case True
    with Inr assms have "collision_loop ex (parent p) (stem p) (suffix p) 1
        (child (parent p) (candidate_name (stem p) 1 (suffix p))) = Some (Inr q)"
      by (simp add: handle_collision_unfold)
    from loop_result[OF this] obtain n where "1 \<le> n"
      "\<forall>j. 1 \<le> j \<and> j < n \<longrightarrow> ex (child (parent p) (candidate_name (stem p) j (suffix p))) = Inr True"
      "q = child (parent p) (candidate_name (stem p) n (suffix p))" "ex q = Inr False"
      by auto
    with Inr True show ?thesis unfolding candidate_def by auto
  qed
qed

lemma handle_collision_raised:
  assumes "handle_collision ex p = Some (Inl e)"
  shows "ex p = Inl e \<or> (ex p = Inr True \<and>
            (\<exists>n\<ge>1. ex (candidate p n) = Inl e \<and> (\<forall>j. 1 \<le> j \<and> j < n \<longrightarrow> ex (candidate p j) = Inr True)))"
proof (cases "ex p")
  case (Inl e')
  with assms show ?thesis by (simp add: handle_collision_raise)
next
  case (Inr b)
  show ?thesis
  proof (cases b)
    case False
    with Inr assms show ?thesis by (simp add: handle_collision_free)
  next
    case True
    with Inr assms have "collision_loop ex (parent p) (stem p) (suffix p) 1
        (child (parent p) (candidate_name (stem p) 1 (suffix p))) = Some (Inl e)"
      by (simp add: handle_collision_unfold)
    from loop_result[OF this] obtain n where "1 \<le> n"
      "\<forall>j. 1 \<le> j \<and> j < n \<longrightarrow> ex (child (parent p) (candidate_name (stem p) j (suffix p))) = Inr True"
      "ex (child (parent p) (candidate_name (stem p) n (suffix p))) = Inl e"
      by auto
    with Inr True show ?thesis unfolding candidate_def by auto
  qed
qed

lemma handle_collision_raised_somewhere:
  "handle_collision ex p = Some (Inl e) \<Longrightarrow> \<exists>q. ex q = Inl e"
  using handle_collision_raised[of ex p e] by auto

text \<open>
  With finitely many existing candidates, some check does not answer \<open>True\<close>, and the first
  such candidate comes after at most as many as exist.
\<close>

lemma first_not_taken:
  assumes "finite {n. ex (candidate p n) = Inr True}"
  shows "\<exists>n\<ge>1. ex (candidate p n) \<noteq> Inr True"
proof (rule ccontr)
  assume "\<not> (\<exists>n\<ge>1. ex (candidate p n) \<noteq> Inr True)"
  then have "{1..} \<subseteq> {n. ex (candidate p n) = Inr True}" by auto
  then have "finite {1::nat..}" using assms by (rule finite_subset)
  then show False by (simp add: infinite_Ici)
qed

lemma taken_below_card:
  assumes "finite {n. ex (candidate p n) = Inr True}"
    and "\<forall>j. 1 \<le> j \<and> j < n \<longrightarrow> ex (candidate p j) = Inr True" and "1 \<le> n"
  shows "n \<le> card {n. ex (candidate p n) = Inr True} + 1"
proof -
  have "{1..<n} \<subseteq> {n. ex (candidate p n) = Inr True}" using assms(2) by auto
  from card_mono[OF assms(1) this]
  have "card {1..<n} \<le> card {n. ex (candidate p n) = Inr True}" .
  then show ?thesis by simp
qed

lemma handle_collision_total:
  assumes "finite {n. ex (candidate p n) = Inr True}"
  shows "\<exists>r. handle_collision ex p = Some r"
proof (cases "ex p")
  case (Inl e)
  then show ?thesis by (simp add: handle_collision_raise)
next
  case (Inr b)
  show ?thesis
  proof (cases b)
    case False
    with Inr show ?thesis by (simp add: handle_collision_free)
  next
    case True
    define L where "L = (LEAST n. 1 \<le> n \<and> ex (candidate p n) \<noteq> Inr True)"
    from first_not_taken[OF assms] obtain n0 where "1 \<le> n0 \<and> ex (candidate p n0) \<noteq> Inr True"
      by auto
    then have L: "1 \<le> L \<and> ex (candidate p L) \<noteq> Inr True"
      unfolding L_def by (rule LeastI)
    have M: "\<forall>j. 1 \<le> j \<and> j < L \<longrightarrow> ex (candidate p j) = Inr True"
    proof (intro allI impI)
      fix j assume j: "1 \<le> j \<and> j < L"
      then have "\<not> (1 \<le> j \<and> ex (candidate p j) \<noteq> Inr True)"
        unfolding L_def using not_less_Least by blast
      with j show "ex (candidate p j) = Inr True" by simp
    qed
    from Inr True have "ex p = Inr True" by simp
    from handle_collision_first[OF this _ _ M, of ] L show ?thesis by blast
  qed
qed

section \<open>The reference file system\<close>

lemma sim_lookup_entry:
  "sim_lookup s a pre cs = Inr (Some k) \<Longrightarrow> pre @ cs \<noteq> [] \<Longrightarrow>
   map_of (entries s) (Path a (pre @ cs)) = Some k"
proof (induction cs arbitrary: pre)
  case Nil
  then show ?case by (simp split: if_splits)
next
  case (Cons c cs)
  from Cons.prems(1) have "sim_lookup s a (pre @ [c]) cs = Inr (Some k)"
    by (simp split: if_splits)
  from Cons.IH[OF this] show ?case by simp
qed

lemma sim_exists_entry:
  assumes "sim_exists s q = Inr True" and "parts q \<noteq> []"
  shows "q \<in> fst ` set (entries s)"
proof -
  from assms(1) obtain k where "sim_lookup s (anchor q) [] (parts q) = Inr (Some k)"
    by (auto simp add: sim_exists_def sim_stat_def split: if_splits sum.splits)
  from sim_lookup_entry[OF this] assms(2) have "map_of (entries s) q = Some k" by simp
  then show ?thesis by (metis map_of_SomeD fst_conv image_eqI)
qed

lemma sim_candidates_finite: "finite {n. sim_exists s (candidate p n) = Inr True}"
proof -
  have "{n. sim_exists s (candidate p n) = Inr True} \<subseteq> candidate p -` (fst ` set (entries s))"
    using sim_exists_entry[of s] by (auto simp add: candidate_def child_def)
  moreover have "finite (candidate p -` (fst ` set (entries s)))"
    by (rule finite_vimageI) (simp_all add: candidate_inj)
  ultimately show ?thesis by (rule finite_subset)
qed

text \<open>Finitely many existing paths, or finitely many entries in the directory, are enough.\<close>

lemma finite_paths_candidates:
  "finite {q. ex q = Inr True} \<Longrightarrow> finite {n. ex (candidate p n) = Inr True}"
  using finite_vimageI[of "{q. ex q = Inr True}" "candidate p"] candidate_inj[of p]
  by (simp add: vimage_def)

lemma finite_directory_candidates:
  assumes "finite {n. ex (child (parent p) n) = Inr True}"
  shows "finite {n. ex (candidate p n) = Inr True}"
proof -
  have "inj (\<lambda>n. candidate_name (stem p) n (suffix p))"
    by (rule injI) (auto dest: candidate_name_inj)
  from finite_vimageI[OF assms this] show ?thesis
    by (simp add: vimage_def candidate_def)
qed

text \<open>
  Claim C2, amended. If the check of the destination answers that it does not exist,
  \<open>handle_collision\<close> returns it unchanged. If the destination exists, some candidate
  \<open>parent / stem_N suffix\<close> with \<open>N \<ge> 1\<close> is free and the checks of the candidates before the
  first free one answer, the result is the candidate with the least such \<open>N\<close>. Whatever
  path is returned does not exist. When the check of the destination raises, or the
  destination and the candidates before the \<open>N\<close>-th exist and the check of the \<open>N\<close>-th
  raises, \<open>handle_collision\<close> returns no path: it raises that exception.
\<close>

theorem handle_collision_spec:
  "(ex P = Inr False \<longrightarrow> handle_collision ex P = Some (Inr P)) \<and>
   (ex P = Inr True \<and> (\<exists>N\<ge>1. ex (candidate P N) = Inr False) \<and>
    (\<forall>j. 1 \<le> j \<and> j < (LEAST N. 1 \<le> N \<and> ex (candidate P N) = Inr False) \<longrightarrow>
           (\<exists>b. ex (candidate P j) = Inr b)) \<longrightarrow>
      handle_collision ex P =
        Some (Inr (candidate P (LEAST N. 1 \<le> N \<and> ex (candidate P N) = Inr False)))) \<and>
   (\<forall>R. handle_collision ex P = Some (Inr R) \<longrightarrow> ex R = Inr False) \<and>
   (ex P = Inl e \<longrightarrow> handle_collision ex P = Some (Inl e)) \<and>
   (ex P = Inr True \<and> 1 \<le> M \<and> ex (candidate P M) = Inl e \<and>
    (\<forall>j. 1 \<le> j \<and> j < M \<longrightarrow> ex (candidate P j) = Inr True) \<longrightarrow>
      handle_collision ex P = Some (Inl e))"
proof (intro conjI impI allI)
  assume "ex P = Inr False"
  then show "handle_collision ex P = Some (Inr P)" by (rule handle_collision_free)
next
  define L where "L = (LEAST N. 1 \<le> N \<and> ex (candidate P N) = Inr False)"
  assume a: "ex P = Inr True \<and> (\<exists>N\<ge>1. ex (candidate P N) = Inr False) \<and>
    (\<forall>j. 1 \<le> j \<and> j < (LEAST N. 1 \<le> N \<and> ex (candidate P N) = Inr False) \<longrightarrow>
           (\<exists>b. ex (candidate P j) = Inr b))"
  then obtain n0 where "1 \<le> n0 \<and> ex (candidate P n0) = Inr False" by auto
  then have L: "1 \<le> L \<and> ex (candidate P L) = Inr False"
    unfolding L_def by (rule LeastI)
  have before: "\<forall>j. 1 \<le> j \<and> j < L \<longrightarrow> ex (candidate P j) = Inr True"
  proof (intro allI impI)
    fix j assume j: "1 \<le> j \<and> j < L"
    then have "\<not> (1 \<le> j \<and> ex (candidate P j) = Inr False)"
      unfolding L_def using not_less_Least by blast
    moreover from a j obtain b where "ex (candidate P j) = Inr b"
      unfolding L_def by blast
    ultimately show "ex (candidate P j) = Inr True" using j by (cases b) simp_all
  qed
  from a L before have "handle_collision ex P = Some (Inr (candidate P L))"
    by (intro handle_collision_first_free) simp_all
  then show "handle_collision ex P =
        Some (Inr (candidate P (LEAST N. 1 \<le> N \<and> ex (candidate P N) = Inr False)))"
    unfolding L_def .
next
  fix R assume "handle_collision ex P = Some (Inr R)"
  then show "ex R = Inr False" using handle_collision_returned[of ex P R] by simp
next
  assume "ex P = Inl e"
  then show "handle_collision ex P = Some (Inl e)" by (rule handle_collision_raise)
next
  assume "ex P = Inr True \<and> 1 \<le> M \<and> ex (candidate P M) = Inl e \<and>
    (\<forall>j. 1 \<le> j \<and> j < M \<longrightarrow> ex (candidate P j) = Inr True)"
  then show "handle_collision ex P = Some (Inl e)"
    by (intro handle_collision_first_raise[of ex P M]) simp_all
qed

theorem handle_collision_spec_witness:
  "sim_exists demo_collision_fs (child demo_images ''notes.txt'') = Inr False \<and>
   handle_collision (sim_exists demo_collision_fs) (child demo_images ''notes.txt'') =
     Some (Inr (child demo_images ''notes.txt'')) \<and>
   sim_exists demo_collision_fs (child demo_images ''image.png'') = Inr True \<and>
   (LEAST N. 1 \<le> N \<and>
      sim_exists demo_collision_fs (candidate (child demo_images ''image.png'') N) = Inr False) = 2 \<and>
   handle_collision (sim_exists demo_collision_fs) (child demo_images ''image.png'') =
     Some (Inr (Path ''/'' [''t'', ''Images'', ''image_2.png''])) \<and>
   sim_exists demo_collision_fs (Path ''/'' [''t'', ''Images'', ''image_2.png'']) = Inr False \<and>
   sim_exists demo_locked_fs (child demo_images ''photo.jpg'') = Inl OSError \<and>
   handle_collision (sim_exists demo_locked_fs) (child demo_images ''photo.jpg'') =
     Some (Inl OSError) \<and>
   sim_exists demo_long_fs (child demo_images demo_long_name) = Inr True \<and>
   sim_exists demo_long_fs (candidate (child demo_images demo_long_name) 1) = Inl OSError \<and>
   handle_collision (sim_exists demo_long_fs) (child demo_images demo_long_name) =
     Some (Inl OSError)"
proof -
  let ?ex = "sim_exists demo_collision_fs"
  let ?P = "child demo_images ''image.png''"
  let ?Q = "child demo_images ''notes.txt''"
  let ?R = "Path ''/'' [''t'', ''Images'', ''image_2.png'']"
  let ?U = "child demo_images ''photo.jpg''"
  let ?V = "child demo_images demo_long_name"
  have c1: "?ex (candidate ?P 1) = Inr True" by code_simp
  have c2: "?ex (candidate ?P 2) = Inr False" by code_simp
  have e: "?ex ?P = Inr True" by code_simp
  have f: "?ex ?Q = Inr False" by code_simp
  have v: "candidate ?P 2 = ?R" by code_simp
  have u: "sim_exists demo_locked_fs ?U = Inl OSError" by code_simp
  have l0: "sim_exists demo_long_fs ?V = Inr True" by code_simp
  have l1: "sim_exists demo_long_fs (candidate ?V 1) = Inl OSError" by code_simp
  have ex: "\<exists>N\<ge>1. ?ex (candidate ?P N) = Inr False"
    using c2 by (intro exI[of _ 2]) simp
  have least: "(LEAST N. 1 \<le> N \<and> ?ex (candidate ?P N) = Inr False) = 2"
  proof (rule Least_equality)
    show "1 \<le> (2::nat) \<and> ?ex (candidate ?P 2) = Inr False" using c2 by simp
  next
    fix y assume y: "1 \<le> y \<and> ?ex (candidate ?P y) = Inr False"
    with c1 have "y \<noteq> 1" by auto
    with y show "2 \<le> y" by simp
  qed
  have answers: "\<forall>j. 1 \<le> j \<and> j < (LEAST N. 1 \<le> N \<and> ?ex (candidate ?P N) = Inr False) \<longrightarrow>
           (\<exists>b. ?ex (candidate ?P j) = Inr b)"
  proof (intro allI impI)
    fix j :: nat assume "1 \<le> j \<and> j < (LEAST N. 1 \<le> N \<and> ?ex (candidate ?P N) = Inr False)"
    with least have "j = 1" by simp
    with c1 show "\<exists>b. ?ex (candidate ?P j) = Inr b" by (intro exI[of _ True]) simp
  qed
  have "handle_collision ?ex ?P =
      Some (Inr (candidate ?P (LEAST N. 1 \<le> N \<and> ?ex (candidate ?P N) = Inr False)))"
    using handle_collision_spec[of ?ex ?P] e ex answers by blast
  then have r1: "handle_collision ?ex ?P = Some (Inr ?R)"
    by (simp only: least v)
  have r2: "handle_collision ?ex ?Q = Some (Inr ?Q)"
    using handle_collision_spec[of ?ex ?Q] f by blast
  have r3: "?ex ?R = Inr False"
    using handle_collision_spec[of ?ex ?P] r1 by blast
  have r4: "handle_collision (sim_exists demo_locked_fs) ?U = Some (Inl OSError)"
    using handle_collision_spec[of "sim_exists demo_locked_fs" ?U OSError] u by blast
  have "\<forall>j. 1 \<le> j \<and> j < (1::nat) \<longrightarrow> sim_exists demo_long_fs (candidate ?V j) = Inr True"
    by simp
  then have r5: "handle_collision (sim_exists demo_long_fs) ?V = Some (Inl OSError)"
    using handle_collision_spec[of "sim_exists demo_long_fs" ?V OSError 1] l0 l1 by blast
  from f r2 e least r1 r3 u r4 l0 l1 r5 show ?thesis by blast
qed

text \<open>
  The destination \<open>photo.jpg\<close> does not exist in a folder without search permission, and
  \<open>handle_collision\<close> does not return it: the check raises. And a destination in the
  target exists under a name of 255 bytes, its first candidate does not exist, and
  \<open>handle_collision\<close> does not return that candidate: its check raises.
\<close>

theorem handle_collision_unsearchable:
  "map_of (entries demo_locked_fs) (child demo_images ''photo.jpg'') = None \<and>
   handle_collision (sim_exists demo_locked_fs) (child demo_images ''photo.jpg'') =
     Some (Inl OSError) \<and>
   map_of (entries demo_long_fs) (child demo_target demo_long_name) = Some File \<and>
   sim_exists demo_long_fs (child demo_target demo_long_name) = Inr True \<and>
   map_of (entries demo_long_fs) (candidate (child demo_target demo_long_name) 1) = None \<and>
   handle_collision (sim_exists demo_long_fs) (child demo_target demo_long_name) =
     Some (Inl OSError)"
  by code_simp

text \<open>
  Claim C8, amended. When only finitely many of the candidates of a destination exist (as
  when finitely many paths exist, or its directory has finitely many entries),
  \<open>handle_collision\<close> ends. A path it returns is free, and is the destination or one of
  the candidates, reached after at most as many iterations as candidates exist. An
  exception it raises is one that the check of the destination or of a candidate raised,
  and when the checks up to that bound answer it returns a path. The candidates are
  pairwise distinct.
\<close>

theorem handle_collision_terminates:
  "finite {N. ex (candidate P N) = Inr True} \<Longrightarrow>
     (\<exists>r. handle_collision ex P = Some r) \<and>
     (\<forall>R. handle_collision ex P = Some (Inr R) \<longrightarrow>
        ex R = Inr False \<and>
        (R = P \<or> (\<exists>N\<ge>1. N \<le> card {N. ex (candidate P N) = Inr True} + 1 \<and> R = candidate P N))) \<and>
     (\<forall>e. handle_collision ex P = Some (Inl e) \<longrightarrow>
        ex P = Inl e \<or>
        (\<exists>N\<ge>1. N \<le> card {N. ex (candidate P N) = Inr True} + 1 \<and> ex (candidate P N) = Inl e)) \<and>
     ((\<exists>b. ex P = Inr b) \<and>
      (\<forall>N. 1 \<le> N \<and> N \<le> card {N. ex (candidate P N) = Inr True} + 1 \<longrightarrow>
           (\<exists>b. ex (candidate P N) = Inr b)) \<longrightarrow>
        (\<exists>R. handle_collision ex P = Some (Inr R))) \<and>
     inj (candidate P)"
proof (intro conjI impI allI)
  assume fin: "finite {N. ex (candidate P N) = Inr True}"
  show "\<exists>r. handle_collision ex P = Some r" using fin by (rule handle_collision_total)
next
  fix R
  assume fin: "finite {N. ex (candidate P N) = Inr True}"
    and r: "handle_collision ex P = Some (Inr R)"
  from handle_collision_returned[OF r] show "ex R = Inr False" by simp
  from handle_collision_returned[OF r] consider "R = P"
    | n where "1 \<le> n" "R = candidate P n" "\<forall>j. 1 \<le> j \<and> j < n \<longrightarrow> ex (candidate P j) = Inr True"
    by auto
  then show "R = P \<or> (\<exists>N\<ge>1. N \<le> card {N. ex (candidate P N) = Inr True} + 1 \<and> R = candidate P N)"
  proof cases
    case 1
    then show ?thesis by simp
  next
    case 2
    from taken_below_card[OF fin 2(3) 2(1)] 2(1,2) show ?thesis by auto
  qed
next
  fix e
  assume fin: "finite {N. ex (candidate P N) = Inr True}"
    and r: "handle_collision ex P = Some (Inl e)"
  from handle_collision_raised[OF r] consider "ex P = Inl e"
    | n where "1 \<le> n" "ex (candidate P n) = Inl e" "\<forall>j. 1 \<le> j \<and> j < n \<longrightarrow> ex (candidate P j) = Inr True"
    by auto
  then show "ex P = Inl e \<or>
        (\<exists>N\<ge>1. N \<le> card {N. ex (candidate P N) = Inr True} + 1 \<and> ex (candidate P N) = Inl e)"
  proof cases
    case 1
    then show ?thesis by simp
  next
    case 2
    from taken_below_card[OF fin 2(3) 2(1)] 2(1,2) show ?thesis by auto
  qed
next
  assume fin: "finite {N. ex (candidate P N) = Inr True}"
    and ans: "(\<exists>b. ex P = Inr b) \<and>
      (\<forall>N. 1 \<le> N \<and> N \<le> card {N. ex (candidate P N) = Inr True} + 1 \<longrightarrow>
           (\<exists>b. ex (candidate P N) = Inr b))"
  from handle_collision_total[OF fin] obtain r where r: "handle_collision ex P = Some r" by auto
  show "\<exists>R. handle_collision ex P = Some (Inr R)"
  proof (cases r)
    case (Inr R)
    with r show ?thesis by simp
  next
    case (Inl e)
    with r have re: "handle_collision ex P = Some (Inl e)" by simp
    from handle_collision_raised[OF re] consider "ex P = Inl e"
      | n where "1 \<le> n" "ex (candidate P n) = Inl e" "\<forall>j. 1 \<le> j \<and> j < n \<longrightarrow> ex (candidate P j) = Inr True"
      by auto
    then have False
    proof cases
      case 1
      with ans show False by auto
    next
      case 2
      from taken_below_card[OF fin 2(3) 2(1)] 2(1) ans
      obtain b where "ex (candidate P n) = Inr b" by blast
      with 2(2) show False by simp
    qed
    then show ?thesis ..
  qed
next
  show "inj (candidate P)" by (rule candidate_inj)
qed

theorem handle_collision_terminates_witness:
  "finite {N. sim_exists demo_collision_fs (candidate (child demo_images ''image.png'') N) = Inr True} \<and>
   handle_collision (sim_exists demo_collision_fs) (child demo_images ''image.png'') =
     Some (Inr (child demo_images ''image_2.png'')) \<and>
   sim_exists demo_collision_fs (child demo_images ''image_2.png'') = Inr False \<and>
   (\<exists>N\<ge>1. N \<le> card {N. sim_exists demo_collision_fs
                            (candidate (child demo_images ''image.png'') N) = Inr True} + 1 \<and>
      child demo_images ''image_2.png'' = candidate (child demo_images ''image.png'') N) \<and>
   inj (candidate (child demo_images ''image.png''))"
proof -
  let ?ex = "sim_exists demo_collision_fs"
  let ?P = "child demo_images ''image.png''"
  let ?R = "child demo_images ''image_2.png''"
  have fin: "finite {N. ?ex (candidate ?P N) = Inr True}" by (rule sim_candidates_finite)
  have run: "handle_collision ?ex ?P = Some (Inr ?R)" by code_simp
  have ne: "?R \<noteq> ?P" by code_simp
  from handle_collision_terminates[OF fin] run ne fin show ?thesis by blast
qed

text \<open>
  A file system with four entries, the destination the only one in its folder: it exists,
  its name has 255 bytes, and the check of the first candidate, two bytes longer, raises.
  The loop ends there, at no free candidate.
\<close>

theorem handle_collision_name_too_long:
  "length (entries demo_long_fs) = 4 \<and>
   length (name_of (child demo_images demo_long_name)) = 255 \<and>
   sim_exists demo_long_fs (child demo_images demo_long_name) = Inr True \<and>
   length (name_of (candidate (child demo_images demo_long_name) 1)) = 257 \<and>
   sim_exists demo_long_fs (candidate (child demo_images demo_long_name) 1) = Inl OSError \<and>
   handle_collision (sim_exists demo_long_fs) (child demo_images demo_long_name) =
     Some (Inl OSError)"
  by code_simp

section \<open>The category resolver\<close>

lemma map_of_prepopulate_exts:
  "map_of (prepopulate_exts c es cache) k =
     (if k \<in> lower ` set es then Some c else map_of cache k)"
  by (induction es arbitrary: cache) (auto simp add: update_conv')

lemma dom_prepopulate_exts:
  "dom (map_of (prepopulate_exts c es cache)) = dom (map_of cache) \<union> lower ` set es"
  by (auto simp add: dom_def map_of_prepopulate_exts)

lemma normalized_exts_Nil: "normalized_exts [] = {}"
  by (simp add: normalized_exts_def)

lemma normalized_exts_Cons:
  "normalized_exts ((c, es) # m) = lower ` set es \<union> normalized_exts m"
  by (auto simp add: normalized_exts_def)

lemma dom_prepopulate:
  "dom (map_of (prepopulate m cache)) = dom (map_of cache) \<union> normalized_exts m"
  by (induction m cache rule: prepopulate.induct)
     (simp_all add: normalized_exts_Nil normalized_exts_Cons dom_prepopulate_exts Un_assoc)

lemma map_of_build_exts:
  "map_of (build_exts c es cache) k =
     (case map_of cache k of Some v \<Rightarrow> Some v
      | None \<Rightarrow> if k \<in> lower ` set es then Some c else None)"
  by (induction es arbitrary: cache) (auto simp add: update_conv' Let_def split: option.splits)

lemma dom_build_exts:
  "dom (map_of (build_exts c es cache)) = dom (map_of cache) \<union> lower ` set es"
  by (auto simp add: dom_def map_of_build_exts split: option.splits)

lemma dom_build_cache:
  "dom (map_of (build_cache m cache)) = dom (map_of cache) \<union> normalized_exts m"
  by (induction m cache rule: build_cache.induct)
     (simp_all add: normalized_exts_Nil normalized_exts_Cons dom_build_exts Un_assoc)

lemma normalized_lower: "k \<in> normalized_exts m \<Longrightarrow> lower k = k"
  by (auto simp add: normalized_exts_def lower_idem)

lemma absent_lookup:
  assumes "lower E \<notin> normalized_exts m"
  shows "map_of (prepopulate m []) E = None" "map_of (prepopulate m []) (lower E) = None"
    "map_of (build_cache m []) (lower E) = None"
proof -
  have "E \<notin> normalized_exts m" using assms normalized_lower by force
  then show "map_of (prepopulate m []) E = None"
    using dom_prepopulate[of m "[]"] by (auto simp add: dom_def)
  show "map_of (prepopulate m []) (lower E) = None"
    using assms dom_prepopulate[of m "[]"] by (auto simp add: dom_def)
  show "map_of (build_cache m []) (lower E) = None"
    using assms dom_build_cache[of m "[]"] by (auto simp add: dom_def)
qed


lemma prepopulate_append:
  "prepopulate (a @ b) cache = prepopulate b (prepopulate a cache)"
  by (induction a cache rule: prepopulate.induct) simp_all

lemma build_cache_append:
  "build_cache (a @ b) cache = build_cache b (build_cache a cache)"
  by (induction a cache rule: build_cache.induct) simp_all

lemma prepopulate_other:
  "k \<notin> normalized_exts m \<Longrightarrow> map_of (prepopulate m cache) k = map_of cache k"
  by (induction m cache rule: prepopulate.induct)
     (simp_all add: normalized_exts_Cons map_of_prepopulate_exts)

lemma build_cache_other:
  "k \<notin> normalized_exts m \<Longrightarrow> map_of (build_cache m cache) k = map_of cache k"
  by (induction m cache rule: build_cache.induct)
     (simp_all add: normalized_exts_Cons map_of_build_exts split: option.splits)

lemma build_cache_keeps:
  "map_of cache k = Some v \<Longrightarrow> map_of (build_cache m cache) k = Some v"
  by (induction m cache rule: build_cache.induct) (simp_all add: map_of_build_exts)

text \<open>The index of \<open>organize_files\<close>: the last category that lists an extension has it.\<close>

lemma prepopulate_last_wins:
  assumes "k \<in> lower ` set es" and "k \<notin> normalized_exts post"
  shows "map_of (prepopulate (pre @ (C, es) # post) cache) k = Some C"
  using assms by (simp add: prepopulate_append prepopulate_other map_of_prepopulate_exts)

text \<open>The index that \<open>get_category_for_extension\<close> builds: the first category has it.\<close>

lemma build_cache_first_wins:
  assumes "k \<in> lower ` set es" and "k \<notin> normalized_exts pre"
  shows "map_of (build_cache (pre @ (C, es) # post) []) k = Some C"
proof -
  have "map_of (build_cache pre []) k = None"
    using assms(2) by (simp add: build_cache_other)
  then have "map_of (build_exts C es (build_cache pre [])) k = Some C"
    using assms(1) by (simp add: map_of_build_exts)
  then show ?thesis
    by (simp add: build_cache_append build_cache_keeps)
qed

lemma prepopulate_keys_lower: "k \<in> dom (map_of (prepopulate m [])) \<Longrightarrow> lower k = k"
  by (simp add: dom_prepopulate normalized_lower)

text \<open>
  Resolution in \<open>organize_files\<close>, for an extension in any letter case: the category of
  the last entry that lists it.
\<close>

lemma resolve_prepopulated:
  assumes "E \<noteq> []" and "lower E \<in> lower ` set es" and "lower E \<notin> normalized_exts post"
  shows "fst (get_category_for_extension E (pre @ (C, es) # post)
                (prepopulate (pre @ (C, es) # post) [])) = C"
proof -
  let ?m = "pre @ (C, es) # post"
  have hit: "map_of (prepopulate ?m []) (lower E) = Some C"
    using assms(2,3) by (rule prepopulate_last_wins)
  then have ne: "prepopulate ?m [] \<noteq> []" by auto
  show ?thesis
  proof (cases "map_of (prepopulate ?m []) E")
    case None
    with assms(1) ne hit show ?thesis
      by (simp add: get_category_for_extension_def)
  next
    case (Some c)
    then have "lower E = E" by (intro prepopulate_keys_lower) auto
    with Some hit have "c = C" by simp
    with Some assms(1) show ?thesis by (simp add: get_category_for_extension_def)
  qed
qed


text \<open>The index of \<open>organize_files\<close> stays as it was pre-populated.\<close>

lemma prepopulate_empty_build:
  assumes "prepopulate m [] = []"
  shows "build_cache m [] = []"
proof -
  from assms have "dom (map_of (prepopulate m [])) = {}" by simp
  then have "normalized_exts m = {}" by (simp add: dom_prepopulate)
  then have "dom (map_of (build_cache m [])) = {}" by (simp add: dom_build_cache)
  then show ?thesis by (cases "build_cache m []") auto
qed

lemma resolver_keeps_index:
  "snd (get_category_for_extension E m (prepopulate m [])) = prepopulate m []"
  by (auto simp add: get_category_for_extension_def Let_def prepopulate_empty_build
      split: option.splits)

text \<open>
  Claim C7. The empty extension gives the default category and leaves the index as it
  is, whatever the index and the configuration are. An extension whose lowercase form is
  the lowercase form of no extension of the configuration gives the default category,
  from the index that \<open>organize_files\<close> pre-populates and from an empty index.
\<close>

theorem unknown_extension_gives_default:
  "get_category_for_extension [] m cache = (DEFAULT_OTHERS_FOLDER, cache) \<and>
   (lower E \<notin> normalized_exts m \<longrightarrow>
      fst (get_category_for_extension E m (prepopulate m [])) = DEFAULT_OTHERS_FOLDER \<and>
      fst (get_category_for_extension E m []) = DEFAULT_OTHERS_FOLDER)"
  by (auto simp add: get_category_for_extension_def absent_lookup Let_def)

theorem unknown_extension_gives_default_witness:
  "lower ''.Mp3'' \<notin> normalized_exts demo_types \<and>
   get_category_for_extension [] demo_types [(''.mp3'', ''Music'')] =
     (''Others'', [(''.mp3'', ''Music'')]) \<and>
   fst (get_category_for_extension ''.Mp3'' demo_types (prepopulate demo_types [])) = ''Others'' \<and>
   fst (get_category_for_extension ''.Mp3'' demo_types []) = ''Others''"
proof -
  have a: "lower ''.Mp3'' \<notin> normalized_exts demo_types" by code_simp
  show ?thesis
    using a unknown_extension_gives_default[of demo_types "[(''.mp3'', ''Music'')]" "''.Mp3''"]
    by (simp add: DEFAULT_OTHERS_FOLDER_def)
qed


text \<open>
  Claim C1, at the input that shows the defect: \<open>.jpg\<close> is listed under \<open>Images\<close> and then
  under \<open>Documents\<close>. The loop of \<open>get_category_for_extension\<close> keeps the first category,
  the pre-population of \<open>organize_files\<close> overwrites it with the last: \<open>photo.JPG\<close> is moved
  to \<open>Documents\<close>.
\<close>

theorem duplicate_extension_last_category_wins:
  "fst (get_category_for_extension ''.jpg'' demo_dup_types []) = ''Images'' \<and>
   fst (get_category_for_extension ''.jpg'' demo_dup_types (prepopulate demo_dup_types [])) =
     ''Documents'' \<and>
   organize_files sim_os demo_dup_fs demo_target demo_dup_types False =
     Some (Done \<lparr>st_fs = \<lparr>entries = [(demo_target, Dir),
                                      (child (child demo_target ''Documents'') ''photo.JPG'', File),
                                      (child demo_target ''Documents'', Dir)],
                           readonly = [], unsearchable = []\<rparr>,
                 st_cache = [(''.jpg'', ''Documents'')],
                 files_moved = 1, files_skipped = 0,
                 st_log = [Info_scanning demo_target False,
                           Info_moved ''photo.JPG'' ''Documents'' ''photo.JPG'',
                           Info_rule, Info_complete False, Info_processed 1, Info_skipped 0,
                           Info_log_saved]\<rparr>)"
  by code_simp

section \<open>The directory organizer\<close>

lemma is_skipped_protected_name:
  "name_of item \<in> {SCRIPT_NAME, CONFIG_FILE_NAME, LOG_FILE_NAME} \<Longrightarrow>
   is_skipped os s m item = Inr True"
  by (auto simp add: is_skipped_def)

lemma is_skipped_other_name:
  "name_of item \<notin> {SCRIPT_NAME, CONFIG_FILE_NAME, LOG_FILE_NAME} \<Longrightarrow>
   is_skipped os s m item =
     (case is_dir_op os s item of
        Inl e \<Rightarrow> Inl e
      | Inr d \<Rightarrow> Inr (d \<and> name_of item \<in> known_category_folders m))"
  by (auto simp add: is_skipped_def)

subsection \<open>A dry run leaves the file system and the skipped count alone\<close>

lemma organize_file_dry_frame:
  assumes "organize_file os t m True item st = Some r"
  shows "st_fs (final_state r) = st_fs st \<and> files_skipped (final_state r) = files_skipped st"
  using assms
  by (auto simp add: organize_file_def Let_def
      split: prod.splits sum.splits option.splits if_splits)

lemma process_item_dry_frame:
  assumes "process_item os t m True item st = Some r"
  shows "st_fs (final_state r) = st_fs st \<and> files_skipped (final_state r) = files_skipped st"
proof (cases "process_item os t m True item st = organize_file os t m True item st")
  case True
  with assms show ?thesis by (simp add: organize_file_dry_frame)
next
  case False
  with assms show ?thesis
    by (auto simp add: process_item_def split: sum.splits if_splits)
qed

lemma scan_dry_frame:
  "scan os t m True items st = Some r \<Longrightarrow>
   st_fs (final_state r) = st_fs st \<and> files_skipped (final_state r) = files_skipped st"
proof (induction items arbitrary: st)
  case Nil
  then show ?case by auto
next
  case (Cons item rest)
  show ?case
  proof (cases "process_item os t m True item st")
    case None
    with Cons.prems show ?thesis by simp
  next
    case (Some r1)
    note fr = process_item_dry_frame[OF Some]
    show ?thesis
    proof (cases r1)
      case (Raised e st')
      with Some Cons.prems fr show ?thesis by auto
    next
      case (Done st')
      with Some Cons.prems have "scan os t m True rest st' = Some r" by simp
      from Cons.IH[OF this] fr Done show ?thesis by simp
    qed
  qed
qed

lemma organize_files_dry_frame:
  assumes "organize_files os s0 t m True = Some r"
  shows "st_fs (final_state r) = s0 \<and> files_skipped (final_state r) = 0"
proof (cases "is_dir_op os s0 t")
  case (Inl e)
  with assms show ?thesis by (auto simp add: organize_files_def)
next
  case d: (Inr d)
  show ?thesis
  proof (cases d)
    case False
    with d assms show ?thesis by (auto simp add: organize_files_def)
  next
    case True
    define st0 :: "'a scan_state" where
      "st0 = \<lparr>st_fs = s0, st_cache = prepopulate m [], files_moved = 0, files_skipped = 0,
              st_log = [Info_scanning t True]\<rparr>"
    show ?thesis
    proof (cases "iterdir_op os s0 t")
      case (Inl e)
      with d True assms show ?thesis by (auto simp add: organize_files_def Let_def)
    next
      case (Inr names)
      show ?thesis
      proof (cases "scan os t m True (map (child t) names) st0")
        case None
        with d True Inr assms show ?thesis
          by (simp add: organize_files_def Let_def st0_def)
      next
        case (Some r1)
        from scan_dry_frame[OF Some]
        have fr: "st_fs (final_state r1) = s0 \<and> files_skipped (final_state r1) = 0"
          by (simp add: st0_def)
        from d True Inr Some assms fr show ?thesis
          by (cases r1) (auto simp add: organize_files_def Let_def st0_def)
      qed
    qed
  qed
qed

subsection \<open>A dry run never calls \<open>mkdir\<close> or \<open>move\<close>\<close>

lemma is_skipped_ops:
  "is_skipped (os\<lparr>mkdir_op := mk, move_op := mv\<rparr>) s m item = is_skipped os s m item"
  by (simp add: is_skipped_def)

lemma organize_file_dry_ops:
  "organize_file (os\<lparr>mkdir_op := mk, move_op := mv\<rparr>) t m True item st =
   organize_file os t m True item st"
  by (simp add: organize_file_def Let_def split: prod.splits sum.splits option.splits)

lemma process_item_dry_ops:
  "process_item (os\<lparr>mkdir_op := mk, move_op := mv\<rparr>) t m True item st =
   process_item os t m True item st"
  by (simp add: process_item_def is_skipped_ops organize_file_dry_ops split: sum.splits)

lemma scan_dry_ops:
  "scan (os\<lparr>mkdir_op := mk, move_op := mv\<rparr>) t m True items st = scan os t m True items st"
  by (induction items arbitrary: st)
     (simp_all add: process_item_dry_ops split: option.splits outcome.splits)

lemma organize_files_dry_ops:
  "organize_files (os\<lparr>mkdir_op := mk, move_op := mv\<rparr>) s0 t m True =
   organize_files os s0 t m True"
  by (simp add: organize_files_def Let_def scan_dry_ops split: sum.splits)

subsection \<open>The scan ends\<close>

lemma organize_file_total:
  assumes "\<And>s p. finite {N. exists_op os s (candidate p N) = Inr True}"
  shows "\<exists>r. organize_file os t m dry item st = Some r"
proof -
  have hc: "\<forall>s p. handle_collision (exists_op os s) p \<noteq> None"
    using handle_collision_total[OF assms] by auto
  show ?thesis
    using hc
    by (auto simp add: organize_file_def Let_def simp del: not_None_eq
        split: prod.splits sum.splits option.splits exn.splits)
qed

lemma organize_file_total_dry:
  assumes "\<And>p. finite {N. exists_op os (st_fs st) (candidate p N) = Inr True}"
  shows "\<exists>r. organize_file os t m True item st = Some r"
proof -
  have hc: "\<forall>p. handle_collision (exists_op os (st_fs st)) p \<noteq> None"
    using handle_collision_total[OF assms] by auto
  show ?thesis
    using hc
    by (auto simp add: organize_file_def Let_def simp del: not_None_eq
        split: prod.splits sum.splits option.splits)
qed

lemma process_item_total:
  assumes "\<And>s p. finite {N. exists_op os s (candidate p N) = Inr True}"
  shows "\<exists>r. process_item os t m dry item st = Some r"
  using organize_file_total[OF assms, of t m dry item st]
  by (auto simp add: process_item_def split: sum.splits)

lemma process_item_total_dry:
  assumes "\<And>p. finite {N. exists_op os (st_fs st) (candidate p N) = Inr True}"
  shows "\<exists>r. process_item os t m True item st = Some r"
  using organize_file_total_dry[OF assms, of t m item]
  by (auto simp add: process_item_def split: sum.splits)

lemma scan_total:
  assumes "\<And>s p. finite {N. exists_op os s (candidate p N) = Inr True}"
  shows "\<exists>r. scan os t m dry items st = Some r"
proof (induction items arbitrary: st)
  case Nil
  show ?case by simp
next
  case (Cons item rest)
  from process_item_total[OF assms, of t m dry item st]
  obtain r1 where r1: "process_item os t m dry item st = Some r1" by auto
  show ?case
  proof (cases r1)
    case (Raised e st')
    with r1 show ?thesis by simp
  next
    case (Done st')
    with r1 Cons.IH[of st'] show ?thesis by simp
  qed
qed

lemma scan_total_dry:
  assumes "\<And>p. finite {N. exists_op os (st_fs st) (candidate p N) = Inr True}"
  shows "\<exists>r. scan os t m True items st = Some r"
  using assms
proof (induction items arbitrary: st)
  case Nil
  show ?case by simp
next
  case (Cons item rest)
  from process_item_total_dry[OF Cons.prems, of t m item]
  obtain r1 where r1: "process_item os t m True item st = Some r1" by auto
  show ?case
  proof (cases r1)
    case (Raised e st')
    with r1 show ?thesis by simp
  next
    case (Done st')
    with process_item_dry_frame[OF r1] have "st_fs st' = st_fs st" by simp
    with Cons.prems have "\<And>p. finite {N. exists_op os (st_fs st') (candidate p N) = Inr True}"
      by simp
    from Cons.IH[OF this] r1 Done show ?thesis by simp
  qed
qed

lemma organize_files_total:
  assumes "\<And>s p. finite {N. exists_op os s (candidate p N) = Inr True}"
  shows "\<exists>r. organize_files os s0 t m dry = Some r"
proof -
  have "\<And>items st. \<exists>r. scan os t m dry items st = Some r"
    using scan_total[OF assms] by simp
  then have sc: "\<forall>items st. scan os t m dry items st \<noteq> None" by simp
  show ?thesis
    using sc
    by (auto simp add: organize_files_def Let_def simp del: not_None_eq
        split: sum.splits option.splits outcome.splits)
qed

lemma organize_files_total_dry:
  assumes "\<And>p. finite {N. exists_op os s0 (candidate p N) = Inr True}"
  shows "\<exists>r. organize_files os s0 t m True = Some r"
proof -
  have "\<And>items c l. \<exists>r. scan os t m True items
           \<lparr>st_fs = s0, st_cache = c, files_moved = 0, files_skipped = 0, st_log = l\<rparr> = Some r"
    by (rule scan_total_dry) (simp add: assms)
  then have sc: "\<forall>items c l. scan os t m True items
           \<lparr>st_fs = s0, st_cache = c, files_moved = 0, files_skipped = 0, st_log = l\<rparr> \<noteq> None"
    by simp
  show ?thesis
    using sc
    by (auto simp add: organize_files_def Let_def simp del: not_None_eq
        split: sum.splits option.splits outcome.splits)
qed

lemma organize_files_dry_summary:
  assumes "is_dir_op os s0 t = Inr True" and "organize_files os s0 t m True = Some (Done st)"
  shows "\<exists>l. st_log st = l @ summary True (files_moved st) (files_skipped st)"
proof (cases "iterdir_op os s0 t")
  case (Inl e)
  with assms show ?thesis by (simp add: organize_files_def Let_def)
next
  case (Inr names)
  with assms show ?thesis
    by (auto simp add: organize_files_def Let_def split: option.splits outcome.splits)
qed

text \<open>
  Claim C3. A run with the dry-run flag ends, normally or with an exception, in the
  file system it started from: the entries of the target and their types are those before
  the run. The run is the same whatever \<open>mkdir\<close> and \<open>move\<close> would do, so it creates no
  directory and moves no file. And the run does end when only finitely many candidates of
  each destination exist.
\<close>

theorem dry_run_no_mutation:
  "(\<forall>r. organize_files os s0 t m True = Some r \<longrightarrow> st_fs (final_state r) = s0) \<and>
   organize_files (os\<lparr>mkdir_op := mk, move_op := mv\<rparr>) s0 t m True =
     organize_files os s0 t m True \<and>
   ((\<forall>p. finite {N. exists_op os s0 (candidate p N) = Inr True}) \<longrightarrow>
      (\<exists>r. organize_files os s0 t m True = Some r))"
proof (intro conjI allI impI)
  fix r assume "organize_files os s0 t m True = Some r"
  then show "st_fs (final_state r) = s0" using organize_files_dry_frame[of os s0 t m r] by simp
next
  show "organize_files (os\<lparr>mkdir_op := mk, move_op := mv\<rparr>) s0 t m True =
     organize_files os s0 t m True"
    by (rule organize_files_dry_ops)
next
  assume "\<forall>p. finite {N. exists_op os s0 (candidate p N) = Inr True}"
  then show "\<exists>r. organize_files os s0 t m True = Some r"
    by (intro organize_files_total_dry) simp
qed

theorem dry_run_no_mutation_witness:
  "organize_files sim_os demo_collision_fs demo_target demo_types True =
     Some (Done \<lparr>st_fs = demo_collision_fs,
                 st_cache = [(''.jpg'', ''Images''), (''.png'', ''Images''),
                             (''.txt'', ''Documents'')],
                 files_moved = 1, files_skipped = 0,
                 st_log = [Info_scanning demo_target True,
                           Info_dry_run_collision ''image.png'' ''Images'' ''image_2.png'',
                           Debug_skipping ''Images'',
                           Info_rule, Info_complete True, Info_processed 1, Info_skipped 0]\<rparr>) \<and>
   organize_files (sim_os\<lparr>mkdir_op := \<lambda>s p. (s, Some NonOSError),
                          move_op := \<lambda>s p q. (s, Some NonOSError)\<rparr>)
       demo_collision_fs demo_target demo_types True =
     organize_files sim_os demo_collision_fs demo_target demo_types True \<and>
   (\<forall>p. finite {N. exists_op sim_os demo_collision_fs (candidate p N) = Inr True}) \<and>
   (\<exists>r. organize_files sim_os demo_locked_fs demo_target demo_types True = Some r \<and>
        st_fs (final_state r) = demo_locked_fs)"
proof -
  let ?st = "\<lparr>st_fs = demo_collision_fs,
                 st_cache = [(''.jpg'', ''Images''), (''.png'', ''Images''),
                             (''.txt'', ''Documents'')],
                 files_moved = 1, files_skipped = 0,
                 st_log = [Info_scanning demo_target True,
                           Info_dry_run_collision ''image.png'' ''Images'' ''image_2.png'',
                           Debug_skipping ''Images'',
                           Info_rule, Info_complete True, Info_processed 1, Info_skipped 0]\<rparr>"
  have fin: "\<forall>p. finite {N. exists_op sim_os demo_collision_fs (candidate p N) = Inr True}"
    by (simp add: sim_os_def sim_candidates_finite)
  have fin2: "\<forall>p. finite {N. exists_op sim_os demo_locked_fs (candidate p N) = Inr True}"
    by (simp add: sim_os_def sim_candidates_finite)
  note inst = dry_run_no_mutation[of sim_os demo_collision_fs demo_target demo_types
      "\<lambda>s p q. (s, Some NonOSError)" "\<lambda>s p. (s, Some NonOSError)"]
  from inst fin obtain r where r: "organize_files sim_os demo_collision_fs demo_target demo_types True = Some r"
    by blast
  with inst have fs: "st_fs (final_state r) = demo_collision_fs" by blast
  have run: "organize_files sim_os demo_collision_fs demo_target demo_types True = Some (Done ?st)"
    by code_simp
  from dry_run_no_mutation[of sim_os demo_locked_fs demo_target demo_types] fin2
  have locked: "\<exists>r. organize_files sim_os demo_locked_fs demo_target demo_types True = Some r \<and>
        st_fs (final_state r) = demo_locked_fs"
    by blast
  from run inst fin locked show ?thesis by blast
qed

text \<open>
  Claim C9. A run with the dry-run flag ends, normally or with an exception, with the
  skipped count at zero, and the summary of a run that scanned the directory reports zero
  skipped files.
\<close>

theorem dry_run_skips_nothing:
  "(\<forall>r. organize_files os s0 t m True = Some r \<longrightarrow> files_skipped (final_state r) = 0) \<and>
   (\<forall>st. is_dir_op os s0 t = Inr True \<and> organize_files os s0 t m True = Some (Done st) \<longrightarrow>
      (\<exists>l. st_log st = l @ [Info_rule, Info_complete True, Info_processed (files_moved st),
                             Info_skipped 0]))"
proof (intro conjI allI impI)
  fix r assume "organize_files os s0 t m True = Some r"
  then show "files_skipped (final_state r) = 0"
    using organize_files_dry_frame[of os s0 t m r] by simp
next
  fix st
  assume a: "is_dir_op os s0 t = Inr True \<and> organize_files os s0 t m True = Some (Done st)"
  then have "files_skipped st = 0" using organize_files_dry_frame[of os s0 t m "Done st"] by simp
  with a organize_files_dry_summary[of os s0 t m st]
  show "\<exists>l. st_log st = l @ [Info_rule, Info_complete True, Info_processed (files_moved st),
                             Info_skipped 0]"
    by (simp add: summary_def)
qed

theorem dry_run_skips_nothing_witness:
  "is_dir_op sim_os demo_fs demo_target = Inr True \<and>
   organize_files sim_os demo_fs demo_target demo_types True =
     Some (Done \<lparr>st_fs = demo_fs,
                 st_cache = [(''.jpg'', ''Images''), (''.png'', ''Images''),
                             (''.txt'', ''Documents'')],
                 files_moved = 2, files_skipped = 0,
                 st_log = [Info_scanning demo_target True,
                           Info_dry_run ''photo.JPG'' ''Images'' ''photo.JPG'',
                           Info_dry_run ''notes.txt'' ''Documents'' ''notes.txt'',
                           Debug_skip_directory ''archive'',
                           Info_rule, Info_complete True, Info_processed 2, Info_skipped 0]\<rparr>) \<and>
   (\<exists>l. [Info_scanning demo_target True,
         Info_dry_run ''photo.JPG'' ''Images'' ''photo.JPG'',
         Info_dry_run ''notes.txt'' ''Documents'' ''notes.txt'',
         Debug_skip_directory ''archive'',
         Info_rule, Info_complete True, Info_processed 2, Info_skipped 0] =
        l @ [Info_rule, Info_complete True, Info_processed 2, Info_skipped 0])"
proof -
  let ?st = "\<lparr>st_fs = demo_fs,
                 st_cache = [(''.jpg'', ''Images''), (''.png'', ''Images''),
                             (''.txt'', ''Documents'')],
                 files_moved = 2, files_skipped = 0,
                 st_log = [Info_scanning demo_target True,
                           Info_dry_run ''photo.JPG'' ''Images'' ''photo.JPG'',
                           Info_dry_run ''notes.txt'' ''Documents'' ''notes.txt'',
                           Debug_skip_directory ''archive'',
                           Info_rule, Info_complete True, Info_processed 2, Info_skipped 0]\<rparr>"
  have d: "is_dir_op sim_os demo_fs demo_target = Inr True" by code_simp
  have run: "organize_files sim_os demo_fs demo_target demo_types True = Some (Done ?st)"
    by code_simp
  from dry_run_skips_nothing[of sim_os demo_fs demo_target demo_types] d run
  have "\<exists>l. st_log ?st = l @ [Info_rule, Info_complete True, Info_processed (files_moved ?st),
                             Info_skipped 0]"
    by blast
  with d run show ?thesis by simp
qed

text \<open>
  A target whose name is too long does not exist, and \<open>organize_files\<close> reports no error:
  the check raises.
\<close>

theorem target_name_too_long:
  "map_of (entries demo_fs) demo_long_target = None \<and>
   organize_files sim_os demo_fs demo_long_target demo_types False =
     Some (Raised OSError \<lparr>st_fs = demo_fs, st_cache = [], files_moved = 0, files_skipped = 0,
                           st_log = []\<rparr>)"
  by code_simp

text \<open>
  Claim C6, amended. If \<open>is_dir\<close> answers that the target is not a directory,
  \<open>organize_files\<close> reports the error and returns: the file system is untouched, nothing
  is resolved and both counts are zero. If the check raises, the run ends with that
  exception, and likewise nothing is touched, but no error is reported.
\<close>

theorem target_not_a_directory:
  "(is_dir_op os s0 t = Inr False \<longrightarrow>
      organize_files os s0 t m dry =
        Some (Done \<lparr>st_fs = s0, st_cache = [], files_moved = 0, files_skipped = 0,
                    st_log = [Error_target_not_dir t]\<rparr>)) \<and>
   (is_dir_op os s0 t = Inl e \<longrightarrow>
      organize_files os s0 t m dry =
        Some (Raised e \<lparr>st_fs = s0, st_cache = [], files_moved = 0, files_skipped = 0,
                        st_log = []\<rparr>))"
  by (simp add: organize_files_def)

theorem target_not_a_directory_witness:
  "is_dir_op sim_os demo_fs (child demo_target ''missing'') = Inr False \<and>
   organize_files sim_os demo_fs (child demo_target ''missing'') demo_types False =
     Some (Done \<lparr>st_fs = demo_fs, st_cache = [], files_moved = 0, files_skipped = 0,
                 st_log = [Error_target_not_dir (child demo_target ''missing'')]\<rparr>) \<and>
   is_dir_op sim_os demo_fs (child demo_target ''notes.txt'') = Inr False \<and>
   organize_files sim_os demo_fs (child demo_target ''notes.txt'') demo_types True =
     Some (Done \<lparr>st_fs = demo_fs, st_cache = [], files_moved = 0, files_skipped = 0,
                 st_log = [Error_target_not_dir (child demo_target ''notes.txt'')]\<rparr>) \<and>
   is_dir_op sim_os demo_fs demo_long_target = Inl OSError \<and>
   organize_files sim_os demo_fs demo_long_target demo_types True =
     Some (Raised OSError \<lparr>st_fs = demo_fs, st_cache = [], files_moved = 0, files_skipped = 0,
                           st_log = []\<rparr>)"
proof -
  have a: "is_dir_op sim_os demo_fs (child demo_target ''missing'') = Inr False" by code_simp
  have b: "is_dir_op sim_os demo_fs (child demo_target ''notes.txt'') = Inr False" by code_simp
  have c: "is_dir_op sim_os demo_fs demo_long_target = Inl OSError" by code_simp
  from a b c
    target_not_a_directory[of sim_os demo_fs "child demo_target ''missing''" demo_types False]
    target_not_a_directory[of sim_os demo_fs "child demo_target ''notes.txt''" demo_types True]
    target_not_a_directory[of sim_os demo_fs demo_long_target demo_types True OSError]
  show ?thesis by blast
qed

subsection \<open>One entry\<close>

lemma process_item_skipped:
  "is_skipped os (st_fs st) m item = Inr True \<Longrightarrow>
   process_item os t m dry item st =
     Some (Done (st\<lparr>st_log := st_log st @ [Debug_skipping (name_of item)]\<rparr>))"
  by (simp add: process_item_def)

lemma process_item_file:
  "is_skipped os (st_fs st) m item = Inr False \<Longrightarrow> is_file_op os (st_fs st) item = Inr True \<Longrightarrow>
   process_item os t m dry item st = organize_file os t m dry item st"
  by (simp add: process_item_def)



lemma organize_file_mkdir_failed:
  assumes "get_category_for_extension (lower (suffix item)) m (st_cache st) = (c, cache')"
    and "mkdir_op os (st_fs st) (joinpath t c) = (s1, Some OSError)"
  shows "organize_file os t m False item st =
     Some (Done (st\<lparr>st_fs := s1, st_cache := cache', files_skipped := files_skipped st + 1,
                    st_log := st_log st @ [Error_mkdir (joinpath t c)]\<rparr>))"
  using assms by (simp add: organize_file_def)

lemma organize_file_move_failed:
  assumes "get_category_for_extension (lower (suffix item)) m (st_cache st) = (c, cache')"
    and "mkdir_op os (st_fs st) (joinpath t c) = (s1, None)"
    and "handle_collision (exists_op os s1) (joinpath (joinpath t c) (name_of item)) =
           Some (Inr final)"
    and "move_op os s1 item final = (s2, Some e)"
  shows "organize_file os t m False item st =
     Some (Done (st\<lparr>st_fs := s2, st_cache := cache', files_skipped := files_skipped st + 1,
                    st_log := st_log st @ [Error_move (name_of item)]\<rparr>))"
  using assms by (simp add: organize_file_def)


subsection \<open>\<open>move\<close> is never called on a protected name\<close>

lemma organize_file_move_cong:
  assumes "\<forall>s dst. mv s item dst = move_op os s item dst"
  shows "organize_file (os\<lparr>move_op := mv\<rparr>) t m dry item st = organize_file os t m dry item st"
  using assms
  by (simp add: organize_file_def Let_def split: prod.splits sum.splits option.splits exn.splits)

lemma process_item_move_cong:
  assumes "\<forall>s src dst. name_of src \<notin> {SCRIPT_NAME, CONFIG_FILE_NAME, LOG_FILE_NAME} \<longrightarrow>
             mv s src dst = move_op os s src dst"
  shows "process_item (os\<lparr>move_op := mv\<rparr>) t m dry item st = process_item os t m dry item st"
proof (cases "name_of item \<in> {SCRIPT_NAME, CONFIG_FILE_NAME, LOG_FILE_NAME}")
  case True
  then have "is_skipped (os\<lparr>move_op := mv\<rparr>) (st_fs st) m item = Inr True"
    "is_skipped os (st_fs st) m item = Inr True"
    by (simp_all only: is_skipped_protected_name)
  then show ?thesis by (simp add: process_item_def)
next
  case False
  with assms have "\<forall>s dst. mv s item dst = move_op os s item dst" by simp
  then have "organize_file (os\<lparr>move_op := mv\<rparr>) t m dry item st = organize_file os t m dry item st"
    by (rule organize_file_move_cong)
  moreover have "is_skipped (os\<lparr>move_op := mv\<rparr>) (st_fs st) m item = is_skipped os (st_fs st) m item"
    by (simp add: is_skipped_def)
  ultimately show ?thesis by (simp add: process_item_def split: sum.splits)
qed

lemma scan_move_cong:
  assumes "\<forall>s src dst. name_of src \<notin> {SCRIPT_NAME, CONFIG_FILE_NAME, LOG_FILE_NAME} \<longrightarrow>
             mv s src dst = move_op os s src dst"
  shows "scan (os\<lparr>move_op := mv\<rparr>) t m dry items st = scan os t m dry items st"
  by (induction items arbitrary: st)
     (simp_all add: process_item_move_cong[OF assms] split: option.splits outcome.splits)

lemma organize_files_move_cong:
  assumes "\<forall>s src dst. name_of src \<notin> {SCRIPT_NAME, CONFIG_FILE_NAME, LOG_FILE_NAME} \<longrightarrow>
             mv s src dst = move_op os s src dst"
  shows "organize_files (os\<lparr>move_op := mv\<rparr>) s0 t m dry = organize_files os s0 t m dry"
  by (simp add: organize_files_def Let_def scan_move_cong[OF assms] split: sum.splits)

text \<open>
  Claim C4. In a dry run and in a real run alike, the loop body leaves an entry named
  like the script, the configuration file or the log file, and an entry that \<open>is_dir\<close>
  reports as a directory and that is named like a category or like the default category,
  with a debug message only: the file system, the index and the counts stay as they are.
  A directory whose \<open>is_dir\<close> check raises is not processed either: the exception ends the
  run there. And a whole run is the same whatever \<open>move\<close> would do to a source with one of
  the three protected names: it never calls \<open>move\<close> on one.
\<close>

theorem protected_entries_skipped:
  "(name_of item \<in> {SCRIPT_NAME, CONFIG_FILE_NAME, LOG_FILE_NAME} \<longrightarrow>
      process_item os t m dry item st =
        Some (Done (st\<lparr>st_log := st_log st @ [Debug_skipping (name_of item)]\<rparr>))) \<and>
   (name_of item \<in> known_category_folders m \<and> is_dir_op os (st_fs st) item = Inr True \<longrightarrow>
      process_item os t m dry item st =
        Some (Done (st\<lparr>st_log := st_log st @ [Debug_skipping (name_of item)]\<rparr>))) \<and>
   (name_of item \<notin> {SCRIPT_NAME, CONFIG_FILE_NAME, LOG_FILE_NAME} \<and>
    is_dir_op os (st_fs st) item = Inl e \<longrightarrow>
      process_item os t m dry item st = Some (Raised e st)) \<and>
   ((\<forall>s src dst. name_of src \<notin> {SCRIPT_NAME, CONFIG_FILE_NAME, LOG_FILE_NAME} \<longrightarrow>
        mv s src dst = move_op os s src dst) \<longrightarrow>
      organize_files (os\<lparr>move_op := mv\<rparr>) s0 t m dry = organize_files os s0 t m dry)"
proof (intro conjI impI)
  assume "name_of item \<in> {SCRIPT_NAME, CONFIG_FILE_NAME, LOG_FILE_NAME}"
  then have "is_skipped os (st_fs st) m item = Inr True" by (rule is_skipped_protected_name)
  then show "process_item os t m dry item st =
        Some (Done (st\<lparr>st_log := st_log st @ [Debug_skipping (name_of item)]\<rparr>))"
    by (rule process_item_skipped)
next
  assume "name_of item \<in> known_category_folders m \<and> is_dir_op os (st_fs st) item = Inr True"
  then have "is_skipped os (st_fs st) m item = Inr True" by (simp add: is_skipped_def)
  then show "process_item os t m dry item st =
        Some (Done (st\<lparr>st_log := st_log st @ [Debug_skipping (name_of item)]\<rparr>))"
    by (rule process_item_skipped)
next
  assume "name_of item \<notin> {SCRIPT_NAME, CONFIG_FILE_NAME, LOG_FILE_NAME} \<and>
    is_dir_op os (st_fs st) item = Inl e"
  then have "is_skipped os (st_fs st) m item = Inl e" by (simp add: is_skipped_other_name)
  then show "process_item os t m dry item st = Some (Raised e st)"
    by (simp add: process_item_def)
next
  assume "\<forall>s src dst. name_of src \<notin> {SCRIPT_NAME, CONFIG_FILE_NAME, LOG_FILE_NAME} \<longrightarrow>
        mv s src dst = move_op os s src dst"
  then show "organize_files (os\<lparr>move_op := mv\<rparr>) s0 t m dry = organize_files os s0 t m dry"
    by (rule organize_files_move_cong)
qed

theorem protected_entries_skipped_witness:
  "name_of (child demo_target ''organizer.py'') \<in> {SCRIPT_NAME, CONFIG_FILE_NAME, LOG_FILE_NAME} \<and>
   process_item sim_os demo_target demo_types False (child demo_target ''organizer.py'')
       \<lparr>st_fs = demo_protected_fs, st_cache = [], files_moved = 0, files_skipped = 0, st_log = []\<rparr> =
     Some (Done \<lparr>st_fs = demo_protected_fs, st_cache = [], files_moved = 0, files_skipped = 0,
                 st_log = [Debug_skipping ''organizer.py'']\<rparr>) \<and>
   name_of (child demo_target ''Others'') \<in> known_category_folders demo_types \<and>
   is_dir_op sim_os demo_protected_fs (child demo_target ''Others'') = Inr True \<and>
   process_item sim_os demo_target demo_types True (child demo_target ''Others'')
       \<lparr>st_fs = demo_protected_fs, st_cache = [], files_moved = 0, files_skipped = 0, st_log = []\<rparr> =
     Some (Done \<lparr>st_fs = demo_protected_fs, st_cache = [], files_moved = 0, files_skipped = 0,
                 st_log = [Debug_skipping ''Others'']\<rparr>) \<and>
   map_of (entries demo_locked_fs) (child demo_images ''Others'') = Some Dir \<and>
   name_of (child demo_images ''Others'') \<in> known_category_folders demo_types \<and>
   name_of (child demo_images ''Others'') \<notin> {SCRIPT_NAME, CONFIG_FILE_NAME, LOG_FILE_NAME} \<and>
   is_dir_op sim_os demo_locked_fs (child demo_images ''Others'') = Inl OSError \<and>
   process_item sim_os demo_images demo_types False (child demo_images ''Others'')
       \<lparr>st_fs = demo_locked_fs, st_cache = [], files_moved = 0, files_skipped = 0, st_log = []\<rparr> =
     Some (Raised OSError
       \<lparr>st_fs = demo_locked_fs, st_cache = [], files_moved = 0, files_skipped = 0, st_log = []\<rparr>) \<and>
   organize_files (sim_os\<lparr>move_op := demo_guarded_move\<rparr>) demo_protected_fs demo_target
       demo_types False =
     organize_files sim_os demo_protected_fs demo_target demo_types False \<and>
   organize_files sim_os demo_protected_fs demo_target demo_types False =
     Some (Done
       \<lparr>st_fs = \<lparr>entries = [(demo_target, Dir),
                              (child demo_target ''organizer.py'', File),
                              (child demo_target ''file_types.json'', File),
                              (child demo_target ''organizer.log'', File),
                              (child demo_target ''Images'', Dir),
                              (child demo_target ''Others'', Dir),
                              (child demo_images ''photo.JPG'', File)],
                   readonly = [], unsearchable = []\<rparr>,
        st_cache = [(''.jpg'', ''Images''), (''.png'', ''Images''), (''.txt'', ''Documents'')],
        files_moved = 1, files_skipped = 0,
        st_log = [Info_scanning demo_target False,
                  Debug_skipping ''organizer.py'', Debug_skipping ''file_types.json'',
                  Debug_skipping ''organizer.log'', Debug_skipping ''Images'',
                  Debug_skipping ''Others'',
                  Info_moved ''photo.JPG'' ''Images'' ''photo.JPG'',
                  Info_rule, Info_complete False, Info_processed 1, Info_skipped 0,
                  Info_log_saved]\<rparr>)"
proof -
  let ?st = "\<lparr>st_fs = demo_protected_fs, st_cache = [], files_moved = 0, files_skipped = 0,
               st_log = []\<rparr>"
  let ?st' = "\<lparr>st_fs = demo_locked_fs, st_cache = [], files_moved = 0, files_skipped = 0,
               st_log = []\<rparr>"
  have n1: "name_of (child demo_target ''organizer.py'') \<in>
      {SCRIPT_NAME, CONFIG_FILE_NAME, LOG_FILE_NAME}" by code_simp
  have nm1: "name_of (child demo_target ''organizer.py'') = ''organizer.py''" by code_simp
  have n2: "name_of (child demo_target ''Others'') \<in> known_category_folders demo_types"
    by code_simp
  have nm2: "name_of (child demo_target ''Others'') = ''Others''" by code_simp
  have d2: "is_dir_op sim_os demo_protected_fs (child demo_target ''Others'') = Inr True"
    by code_simp
  have n3: "name_of (child demo_images ''Others'') \<notin> {SCRIPT_NAME, CONFIG_FILE_NAME, LOG_FILE_NAME}"
    by code_simp
  have d3: "is_dir_op sim_os demo_locked_fs (child demo_images ''Others'') = Inl OSError"
    by code_simp
  have k3: "map_of (entries demo_locked_fs) (child demo_images ''Others'') = Some Dir"
    "name_of (child demo_images ''Others'') \<in> known_category_folders demo_types"
    by code_simp+
  have d2': "is_dir_op sim_os (st_fs ?st) (child demo_target ''Others'') = Inr True"
    using d2 by simp
  have d3': "is_dir_op sim_os (st_fs ?st') (child demo_images ''Others'') = Inl OSError"
    using d3 by simp
  have agree: "\<forall>s src dst. name_of src \<notin> {SCRIPT_NAME, CONFIG_FILE_NAME, LOG_FILE_NAME} \<longrightarrow>
      demo_guarded_move s src dst = move_op sim_os s src dst"
    by (simp add: demo_guarded_move_def sim_os_def)
  have run: "organize_files sim_os demo_protected_fs demo_target demo_types False =
     Some (Done
       \<lparr>st_fs = \<lparr>entries = [(demo_target, Dir),
                              (child demo_target ''organizer.py'', File),
                              (child demo_target ''file_types.json'', File),
                              (child demo_target ''organizer.log'', File),
                              (child demo_target ''Images'', Dir),
                              (child demo_target ''Others'', Dir),
                              (child demo_images ''photo.JPG'', File)],
                   readonly = [], unsearchable = []\<rparr>,
        st_cache = [(''.jpg'', ''Images''), (''.png'', ''Images''), (''.txt'', ''Documents'')],
        files_moved = 1, files_skipped = 0,
        st_log = [Info_scanning demo_target False,
                  Debug_skipping ''organizer.py'', Debug_skipping ''file_types.json'',
                  Debug_skipping ''organizer.log'', Debug_skipping ''Images'',
                  Debug_skipping ''Others'',
                  Info_moved ''photo.JPG'' ''Images'' ''photo.JPG'',
                  Info_rule, Info_complete False, Info_processed 1, Info_skipped 0,
                  Info_log_saved]\<rparr>)"
    by code_simp
  have "process_item sim_os demo_target demo_types False (child demo_target ''organizer.py'') ?st =
      Some (Done (?st\<lparr>st_log := st_log ?st @
        [Debug_skipping (name_of (child demo_target ''organizer.py''))]\<rparr>))"
    using protected_entries_skipped[of "child demo_target ''organizer.py''" sim_os demo_target
        demo_types False ?st] n1
    by blast
  then have a: "process_item sim_os demo_target demo_types False
      (child demo_target ''organizer.py'') ?st =
      Some (Done \<lparr>st_fs = demo_protected_fs, st_cache = [], files_moved = 0, files_skipped = 0,
                 st_log = [Debug_skipping ''organizer.py'']\<rparr>)"
    by (simp add: nm1)
  have "process_item sim_os demo_target demo_types True (child demo_target ''Others'') ?st =
      Some (Done (?st\<lparr>st_log := st_log ?st @
        [Debug_skipping (name_of (child demo_target ''Others''))]\<rparr>))"
    using protected_entries_skipped[of "child demo_target ''Others''" sim_os demo_target
        demo_types True ?st] n2 d2'
    by blast
  then have b: "process_item sim_os demo_target demo_types True (child demo_target ''Others'') ?st =
      Some (Done \<lparr>st_fs = demo_protected_fs, st_cache = [], files_moved = 0, files_skipped = 0,
                 st_log = [Debug_skipping ''Others'']\<rparr>)"
    by (simp add: nm2)
  have c: "process_item sim_os demo_images demo_types False (child demo_images ''Others'') ?st' =
      Some (Raised OSError ?st')"
    using protected_entries_skipped[of "child demo_images ''Others''" sim_os demo_images
        demo_types False ?st' OSError] n3 d3'
    by blast
  have d: "organize_files (sim_os\<lparr>move_op := demo_guarded_move\<rparr>) demo_protected_fs demo_target
       demo_types False =
     organize_files sim_os demo_protected_fs demo_target demo_types False"
    using protected_entries_skipped[of "child demo_target ''organizer.py''" sim_os demo_target
        demo_types False ?st OSError demo_guarded_move demo_protected_fs] agree
    by blast
  from n1 a n2 d2 b k3 n3 d3 c d run show ?thesis by blast
qed



subsection \<open>Where an uncaught exception comes from\<close>

lemma organize_file_raised:
  assumes "organize_file os t m dry item st = Some (Raised e st')"
  shows "(\<exists>q. exists_op os (st_fs st') q = Inl e) \<or>
         (e \<noteq> OSError \<and> \<not> dry \<and> (\<exists>s p. mkdir_op os s p = (st_fs st', Some e)))"
proof -
  obtain c cache' where gc: "get_category_for_extension (lower (suffix item)) m (st_cache st) = (c, cache')"
    by (cases "get_category_for_extension (lower (suffix item)) m (st_cache st)")
  show ?thesis
  proof (cases dry)
    case True
    with assms gc have "\<exists>q. exists_op os (st_fs st') q = Inl e"
      by (auto simp add: organize_file_def Let_def
          split: sum.splits option.splits if_splits dest!: handle_collision_raised_somewhere)
    then show ?thesis by simp
  next
    case False
    obtain s1 r where mk: "mkdir_op os (st_fs st) (joinpath t c) = (s1, r)"
      by (cases "mkdir_op os (st_fs st) (joinpath t c)")
    show ?thesis
    proof (cases r)
      case None
      with assms gc False mk have "\<exists>q. exists_op os (st_fs st') q = Inl e"
        by (auto simp add: organize_file_def Let_def
            split: sum.splits option.splits prod.splits dest!: handle_collision_raised_somewhere)
      then show ?thesis by simp
    next
      case (Some e')
      with assms gc False mk have "e = NonOSError \<and> e' = NonOSError \<and> st_fs st' = s1"
        by (cases e') (auto simp add: organize_file_def)
      with mk Some False show ?thesis by auto
    qed
  qed
qed

lemma process_item_raised:
  assumes "process_item os t m dry item st = Some (Raised e st')"
  shows "is_dir_op os (st_fs st') item = Inl e \<or> is_file_op os (st_fs st') item = Inl e \<or>
         (\<exists>q. exists_op os (st_fs st') q = Inl e) \<or>
         (e \<noteq> OSError \<and> \<not> dry \<and> (\<exists>s p. mkdir_op os s p = (st_fs st', Some e)))"
proof (cases "process_item os t m dry item st = organize_file os t m dry item st")
  case True
  with assms organize_file_raised[of os t m dry item st e st'] show ?thesis by simp
next
  case False
  with assms show ?thesis
    by (auto simp add: process_item_def is_skipped_def split: sum.splits if_splits)
qed

lemma scan_raised:
  "scan os t m dry items st = Some (Raised e st') \<Longrightarrow>
   \<exists>item\<in>set items. \<exists>st1. process_item os t m dry item st1 = Some (Raised e st')"
proof (induction items arbitrary: st)
  case Nil
  then show ?case by simp
next
  case (Cons item rest)
  show ?case
  proof (cases "process_item os t m dry item st")
    case None
    with Cons.prems show ?thesis by simp
  next
    case (Some r1)
    show ?thesis
    proof (cases r1)
      case (Raised e1 st1)
      with Some Cons.prems show ?thesis by auto
    next
      case (Done st1)
      with Some Cons.prems have "scan os t m dry rest st1 = Some (Raised e st')" by simp
      from Cons.IH[OF this] show ?thesis by auto
    qed
  qed
qed

lemma organize_files_raised:
  assumes "organize_files os s0 t m dry = Some (Raised e st')"
  shows "iterdir_op os (st_fs st') t = Inl e \<or>
         (\<exists>p. is_dir_op os (st_fs st') p = Inl e \<or> is_file_op os (st_fs st') p = Inl e \<or>
              exists_op os (st_fs st') p = Inl e) \<or>
         (e \<noteq> OSError \<and> \<not> dry \<and> (\<exists>s p. mkdir_op os s p = (st_fs st', Some e)))"
proof (cases "is_dir_op os s0 t")
  case (Inl e')
  with assms have "e = e' \<and> st_fs st' = s0" by (auto simp add: organize_files_def)
  with Inl show ?thesis by auto
next
  case d: (Inr d)
  show ?thesis
  proof (cases d)
    case False
    with d assms show ?thesis by (simp add: organize_files_def)
  next
    case True
    show ?thesis
    proof (cases "iterdir_op os s0 t")
      case (Inl e')
      with d True assms have "e = e' \<and> st_fs st' = s0"
        by (auto simp add: organize_files_def Let_def)
      with Inl show ?thesis by auto
    next
      case (Inr names)
      with d True assms obtain st0 where
        "scan os t m dry (map (child t) names) st0 = Some (Raised e st')"
        by (auto simp add: organize_files_def Let_def split: option.splits outcome.splits)
      from scan_raised[OF this] obtain item st1 where
        "process_item os t m dry item st1 = Some (Raised e st')" by auto
      from process_item_raised[OF this] show ?thesis by blast
    qed
  qed
qed

lemma is_skipped_move:
  "is_skipped (os\<lparr>move_op := mv\<rparr>) s m item = is_skipped os s m item"
  by (simp add: is_skipped_def)

subsection \<open>The reference file system raises \<open>OSError\<close> only from its status queries\<close>

lemma sim_lookup_oserror: "sim_lookup s a pre cs = Inl e \<Longrightarrow> e = OSError"
  by (induction cs arbitrary: pre) (auto split: if_splits)

lemma sim_queries_oserror:
  "sim_exists s p = Inl e \<Longrightarrow> e = OSError"
  "sim_is_dir s p = Inl e \<Longrightarrow> e = OSError"
  "sim_is_file s p = Inl e \<Longrightarrow> e = OSError"
  by (auto simp add: sim_exists_def sim_is_dir_def sim_is_file_def sim_stat_def
      split: if_splits sum.splits dest: sim_lookup_oserror)

text \<open>
  A category name with a NUL character, as the JSON string \<open>"Docs\u0000"\<close> gives it: the
  first file is moved, \<open>mkdir\<close> raises \<open>ValueError\<close> for the second, and the exception ends
  the scan before the third entry.
\<close>

lemma mkdir_value_error_aborts_scan:
  "organize_files sim_os demo_fs demo_target demo_nul_types False =
     Some (Raised NonOSError
       \<lparr>st_fs = \<lparr>entries = [(demo_target, Dir),
                              (child (child demo_target ''Others'') ''photo.JPG'', File),
                              (child demo_target ''notes.txt'', File),
                              (child demo_target ''archive'', Dir),
                              (child demo_target ''Others'', Dir)],
                   readonly = [], unsearchable = []\<rparr>,
        st_cache = [(''.txt'', ''Docs'' @ [CHR 0x00])],
        files_moved = 1, files_skipped = 0,
        st_log = [Info_scanning demo_target False,
                  Info_moved ''photo.JPG'' ''Others'' ''photo.JPG'']\<rparr>)"
  by code_simp

text \<open>
  A real run on a target with two entries: the first is a file whose name of 255 bytes is
  taken in its category folder. Folder creation succeeds, the existence check of the
  first candidate raises \<open>OSError\<close>, and the exception leaves the scan: the file is not
  counted as skipped and the second entry is never looked at.
\<close>

theorem uncaught_check_aborts_scan:
  "iterdir_op sim_os demo_long_fs demo_target = Inr [demo_long_name, ''Images''] \<and>
   organize_files sim_os demo_long_fs demo_target demo_types False =
     Some (Raised OSError
       \<lparr>st_fs = demo_long_fs,
        st_cache = [(''.jpg'', ''Images''), (''.png'', ''Images''), (''.txt'', ''Documents'')],
        files_moved = 0, files_skipped = 0,
        st_log = [Info_scanning demo_target False]\<rparr>)"
  by code_simp

text \<open>
  Claim C5, amended. In a real run, when \<open>mkdir\<close> raises an \<open>OSError\<close> for the folder of a
  file, the file is counted as skipped, \<open>move\<close> is not called for it (the step is the same
  whatever \<open>move\<close> would do) and the scan goes on with the next entry. When \<open>move\<close> raises
  any exception, the file is counted as skipped and the scan goes on with the next entry.
  An exception that ends a run is one that a status query raised in the file system the
  run ended in (the listing of the target, an \<open>is_dir\<close>, \<open>is_file\<close> or existence check), or
  one that \<open>mkdir\<close> raised in a real run and that is not an \<open>OSError\<close>. And every run ends
  when only finitely many candidates of each destination exist.
\<close>

theorem per_file_errors:
  "(\<forall>c cache' s1.
      is_skipped os (st_fs st) m item = Inr False \<and> is_file_op os (st_fs st) item = Inr True \<and>
      get_category_for_extension (lower (suffix item)) m (st_cache st) = (c, cache') \<and>
      mkdir_op os (st_fs st) (joinpath t c) = (s1, Some OSError) \<longrightarrow>
        scan os t m False (item # rest) st =
          scan os t m False rest
            (st\<lparr>st_fs := s1, st_cache := cache', files_skipped := files_skipped st + 1,
                st_log := st_log st @ [Error_mkdir (joinpath t c)]\<rparr>) \<and>
        process_item (os\<lparr>move_op := mv\<rparr>) t m False item st =
          process_item os t m False item st) \<and>
   (\<forall>c cache' s1 final s2 e.
      is_skipped os (st_fs st) m item = Inr False \<and> is_file_op os (st_fs st) item = Inr True \<and>
      get_category_for_extension (lower (suffix item)) m (st_cache st) = (c, cache') \<and>
      mkdir_op os (st_fs st) (joinpath t c) = (s1, None) \<and>
      handle_collision (exists_op os s1) (joinpath (joinpath t c) (name_of item)) =
        Some (Inr final) \<and>
      move_op os s1 item final = (s2, Some e) \<longrightarrow>
        scan os t m False (item # rest) st =
          scan os t m False rest
            (st\<lparr>st_fs := s2, st_cache := cache', files_skipped := files_skipped st + 1,
                st_log := st_log st @ [Error_move (name_of item)]\<rparr>)) \<and>
   (\<forall>e st'. organize_files os s0 t m dry = Some (Raised e st') \<longrightarrow>
      iterdir_op os (st_fs st') t = Inl e \<or>
      (\<exists>p. is_dir_op os (st_fs st') p = Inl e \<or> is_file_op os (st_fs st') p = Inl e \<or>
           exists_op os (st_fs st') p = Inl e) \<or>
      (e \<noteq> OSError \<and> \<not> dry \<and> (\<exists>s p. mkdir_op os s p = (st_fs st', Some e)))) \<and>
   ((\<forall>s p. finite {N. exists_op os s (candidate p N) = Inr True}) \<longrightarrow>
      (\<exists>r. organize_files os s0 t m dry = Some r))"
proof (intro conjI allI impI)
  fix c cache' s1
  assume a: "is_skipped os (st_fs st) m item = Inr False \<and> is_file_op os (st_fs st) item = Inr True \<and>
      get_category_for_extension (lower (suffix item)) m (st_cache st) = (c, cache') \<and>
      mkdir_op os (st_fs st) (joinpath t c) = (s1, Some OSError)"
  then have p: "process_item os t m False item st =
      Some (Done (st\<lparr>st_fs := s1, st_cache := cache', files_skipped := files_skipped st + 1,
                st_log := st_log st @ [Error_mkdir (joinpath t c)]\<rparr>))"
    by (simp add: process_item_file organize_file_mkdir_failed)
  then show "scan os t m False (item # rest) st =
          scan os t m False rest
            (st\<lparr>st_fs := s1, st_cache := cache', files_skipped := files_skipped st + 1,
                st_log := st_log st @ [Error_mkdir (joinpath t c)]\<rparr>)"
    by simp
  from a have "is_skipped (os\<lparr>move_op := mv\<rparr>) (st_fs st) m item = Inr False"
    "is_file_op (os\<lparr>move_op := mv\<rparr>) (st_fs st) item = Inr True"
    "mkdir_op (os\<lparr>move_op := mv\<rparr>) (st_fs st) (joinpath t c) = (s1, Some OSError)"
    by (simp_all add: is_skipped_move)
  with a have "process_item (os\<lparr>move_op := mv\<rparr>) t m False item st =
      Some (Done (st\<lparr>st_fs := s1, st_cache := cache', files_skipped := files_skipped st + 1,
                st_log := st_log st @ [Error_mkdir (joinpath t c)]\<rparr>))"
    by (simp add: process_item_file organize_file_mkdir_failed)
  with p show "process_item (os\<lparr>move_op := mv\<rparr>) t m False item st =
          process_item os t m False item st"
    by simp
next
  fix c cache' s1 final s2 e
  assume "is_skipped os (st_fs st) m item = Inr False \<and> is_file_op os (st_fs st) item = Inr True \<and>
      get_category_for_extension (lower (suffix item)) m (st_cache st) = (c, cache') \<and>
      mkdir_op os (st_fs st) (joinpath t c) = (s1, None) \<and>
      handle_collision (exists_op os s1) (joinpath (joinpath t c) (name_of item)) =
        Some (Inr final) \<and>
      move_op os s1 item final = (s2, Some e)"
  then have "process_item os t m False item st =
      Some (Done (st\<lparr>st_fs := s2, st_cache := cache', files_skipped := files_skipped st + 1,
                st_log := st_log st @ [Error_move (name_of item)]\<rparr>))"
    by (simp add: process_item_file organize_file_move_failed)
  then show "scan os t m False (item # rest) st =
          scan os t m False rest
            (st\<lparr>st_fs := s2, st_cache := cache', files_skipped := files_skipped st + 1,
                st_log := st_log st @ [Error_move (name_of item)]\<rparr>)"
    by simp
next
  fix e st'
  assume "organize_files os s0 t m dry = Some (Raised e st')"
  then show "iterdir_op os (st_fs st') t = Inl e \<or>
      (\<exists>p. is_dir_op os (st_fs st') p = Inl e \<or> is_file_op os (st_fs st') p = Inl e \<or>
           exists_op os (st_fs st') p = Inl e) \<or>
      (e \<noteq> OSError \<and> \<not> dry \<and> (\<exists>s p. mkdir_op os s p = (st_fs st', Some e)))"
    by (rule organize_files_raised)
next
  assume "\<forall>s p. finite {N. exists_op os s (candidate p N) = Inr True}"
  then show "\<exists>r. organize_files os s0 t m dry = Some r"
    by (intro organize_files_total) simp
qed

theorem per_file_errors_witness:
  "is_skipped sim_os demo_readonly_fs demo_types (child demo_target ''photo.JPG'') = Inr False \<and>
   is_file_op sim_os demo_readonly_fs (child demo_target ''photo.JPG'') = Inr True \<and>
   mkdir_op sim_os demo_readonly_fs (joinpath demo_target ''Images'') =
     (demo_readonly_fs, Some OSError) \<and>
   scan sim_os demo_target demo_types False
       [child demo_target ''photo.JPG'', child demo_target ''notes.txt'',
        child demo_target ''Documents'']
       \<lparr>st_fs = demo_readonly_fs, st_cache = prepopulate demo_types [],
          files_moved = 0, files_skipped = 0, st_log = []\<rparr> =
     scan sim_os demo_target demo_types False
       [child demo_target ''notes.txt'', child demo_target ''Documents'']
       \<lparr>st_fs = demo_readonly_fs, st_cache = prepopulate demo_types [],
          files_moved = 0, files_skipped = 1,
          st_log = [Error_mkdir (child demo_target ''Images'')]\<rparr> \<and>
   process_item (sim_os\<lparr>move_op := \<lambda>s src dst. (s\<lparr>entries := []\<rparr>, None)\<rparr>)
       demo_target demo_types False (child demo_target ''photo.JPG'')
       \<lparr>st_fs = demo_readonly_fs, st_cache = prepopulate demo_types [],
          files_moved = 0, files_skipped = 0, st_log = []\<rparr> =
     process_item sim_os demo_target demo_types False (child demo_target ''photo.JPG'')
       \<lparr>st_fs = demo_readonly_fs, st_cache = prepopulate demo_types [],
          files_moved = 0, files_skipped = 0, st_log = []\<rparr> \<and>
   mkdir_op sim_os demo_readonly_fs (joinpath demo_target ''Documents'') =
     (demo_readonly_fs, None) \<and>
   move_op sim_os demo_readonly_fs (child demo_target ''notes.txt'')
       (child (child demo_target ''Documents'') ''notes.txt'') =
     (demo_readonly_fs, Some OSError) \<and>
   scan sim_os demo_target demo_types False
       [child demo_target ''notes.txt'', child demo_target ''Documents'']
       \<lparr>st_fs = demo_readonly_fs, st_cache = prepopulate demo_types [],
          files_moved = 0, files_skipped = 1,
          st_log = [Error_mkdir (child demo_target ''Images'')]\<rparr> =
     scan sim_os demo_target demo_types False [child demo_target ''Documents'']
       \<lparr>st_fs = demo_readonly_fs, st_cache = prepopulate demo_types [],
          files_moved = 0, files_skipped = 2,
          st_log = [Error_mkdir (child demo_target ''Images''), Error_move ''notes.txt'']\<rparr> \<and>
   organize_files sim_os demo_readonly_fs demo_target demo_types False =
     Some (Done \<lparr>st_fs = demo_readonly_fs, st_cache = prepopulate demo_types [],
                 files_moved = 0, files_skipped = 2,
                 st_log = [Info_scanning demo_target False,
                           Error_mkdir (child demo_target ''Images''),
                           Error_move ''notes.txt'',
                           Debug_skipping ''Documents'',
                           Info_rule, Info_complete False, Info_processed 0, Info_skipped 2]\<rparr>) \<and>
   (\<exists>st'. organize_files sim_os demo_fs demo_target demo_nul_types False =
            Some (Raised NonOSError st') \<and>
          (\<exists>s p. mkdir_op sim_os s p = (st_fs st', Some NonOSError))) \<and>
   (\<exists>st'. organize_files sim_os demo_long_fs demo_target demo_types False =
            Some (Raised OSError st') \<and>
          (\<exists>p. is_dir_op sim_os (st_fs st') p = Inl OSError \<or>
               is_file_op sim_os (st_fs st') p = Inl OSError \<or>
               exists_op sim_os (st_fs st') p = Inl OSError)) \<and>
   (\<forall>s p. finite {N. exists_op sim_os s (candidate p N) = Inr True}) \<and>
   (\<exists>r. organize_files sim_os demo_readonly_fs demo_target demo_types False = Some r)"
proof -
  let ?P = "child demo_target ''photo.JPG''"
  let ?N = "child demo_target ''notes.txt''"
  let ?D = "child demo_target ''Documents''"
  let ?c = "prepopulate demo_types []"
  let ?fs = demo_readonly_fs
  let ?st0 = "\<lparr>st_fs = ?fs, st_cache = ?c, files_moved = 0, files_skipped = 0, st_log = []\<rparr>"
  let ?st1 = "\<lparr>st_fs = ?fs, st_cache = ?c, files_moved = 0, files_skipped = 1,
          st_log = [Error_mkdir (child demo_target ''Images'')]\<rparr>"
  let ?st2 = "\<lparr>st_fs = ?fs, st_cache = ?c, files_moved = 0, files_skipped = 2,
          st_log = [Error_mkdir (child demo_target ''Images''), Error_move ''notes.txt'']\<rparr>"
  let ?mv = "\<lambda>(s::sim_fs) (src::path) (dst::path). (s\<lparr>entries := []\<rparr>, None :: exn option)"
  have s1: "is_skipped sim_os ?fs demo_types ?P = Inr False" by code_simp
  have f1: "is_file_op sim_os ?fs ?P = Inr True" by code_simp
  have g1: "get_category_for_extension (lower (suffix ?P)) demo_types ?c = (''Images'', ?c)"
    by code_simp
  have m1: "mkdir_op sim_os ?fs (joinpath demo_target ''Images'') = (?fs, Some OSError)"
    by code_simp
  have s2: "is_skipped sim_os ?fs demo_types ?N = Inr False" by code_simp
  have f2: "is_file_op sim_os ?fs ?N = Inr True" by code_simp
  have g2: "get_category_for_extension (lower (suffix ?N)) demo_types ?c = (''Documents'', ?c)"
    by code_simp
  have m2: "mkdir_op sim_os ?fs (joinpath demo_target ''Documents'') = (?fs, None)"
    by code_simp
  have h2: "handle_collision (exists_op sim_os ?fs)
      (joinpath (joinpath demo_target ''Documents'') (name_of ?N)) =
      Some (Inr (child ?D ''notes.txt''))" by code_simp
  have v2: "move_op sim_os ?fs ?N (child ?D ''notes.txt'') = (?fs, Some OSError)" by code_simp
  have nm: "joinpath demo_target ''Images'' = child demo_target ''Images''"
    "name_of ?N = ''notes.txt''" by code_simp+
  have p1: "is_skipped sim_os (st_fs ?st0) demo_types ?P = Inr False \<and>
      is_file_op sim_os (st_fs ?st0) ?P = Inr True \<and>
      get_category_for_extension (lower (suffix ?P)) demo_types (st_cache ?st0) = (''Images'', ?c) \<and>
      mkdir_op sim_os (st_fs ?st0) (joinpath demo_target ''Images'') = (?fs, Some OSError)"
    using s1 f1 g1 m1 by simp
  have p2: "is_skipped sim_os (st_fs ?st1) demo_types ?N = Inr False \<and>
      is_file_op sim_os (st_fs ?st1) ?N = Inr True \<and>
      get_category_for_extension (lower (suffix ?N)) demo_types (st_cache ?st1) =
        (''Documents'', ?c) \<and>
      mkdir_op sim_os (st_fs ?st1) (joinpath demo_target ''Documents'') = (?fs, None) \<and>
      handle_collision (exists_op sim_os ?fs)
        (joinpath (joinpath demo_target ''Documents'') (name_of ?N)) =
        Some (Inr (child ?D ''notes.txt'')) \<and>
      move_op sim_os ?fs ?N (child ?D ''notes.txt'') = (?fs, Some OSError)"
    using s2 f2 g2 m2 h2 v2 by simp
  note i1 = per_file_errors[where os = sim_os and st = ?st0 and m = demo_types and item = ?P
      and t = demo_target and rest = "[?N, ?D]" and mv = ?mv]
  note i2 = per_file_errors[where os = sim_os and st = ?st1 and m = demo_types and item = ?N
      and t = demo_target and rest = "[?D]"]
  note i3 = per_file_errors[where os = sim_os and ?s0.0 = demo_fs and m = demo_nul_types
      and t = demo_target and dry = False]
  note i4 = per_file_errors[where os = sim_os and ?s0.0 = demo_readonly_fs and m = demo_types
      and t = demo_target and dry = False]
  note i5 = per_file_errors[where os = sim_os and ?s0.0 = demo_long_fs and m = demo_types
      and t = demo_target and dry = False]
  have a: "scan sim_os demo_target demo_types False (?P # [?N, ?D]) ?st0 =
      scan sim_os demo_target demo_types False [?N, ?D]
        (?st0\<lparr>st_fs := ?fs, st_cache := ?c, files_skipped := files_skipped ?st0 + 1,
               st_log := st_log ?st0 @ [Error_mkdir (joinpath demo_target ''Images'')]\<rparr>) \<and>
      process_item (sim_os\<lparr>move_op := ?mv\<rparr>) demo_target demo_types False ?P ?st0 =
        process_item sim_os demo_target demo_types False ?P ?st0"
    using i1 p1 by blast
  have b: "scan sim_os demo_target demo_types False (?N # [?D]) ?st1 =
      scan sim_os demo_target demo_types False [?D]
        (?st1\<lparr>st_fs := ?fs, st_cache := ?c, files_skipped := files_skipped ?st1 + 1,
               st_log := st_log ?st1 @ [Error_move (name_of ?N)]\<rparr>)"
    using i2 p2 by blast
  have run: "organize_files sim_os ?fs demo_target demo_types False =
     Some (Done \<lparr>st_fs = ?fs, st_cache = ?c,
                 files_moved = 0, files_skipped = 2,
                 st_log = [Info_scanning demo_target False,
                           Error_mkdir (child demo_target ''Images''),
                           Error_move ''notes.txt'',
                           Debug_skipping ''Documents'',
                           Info_rule, Info_complete False, Info_processed 0, Info_skipped 2]\<rparr>)"
    by code_simp
  define X :: "sim_fs scan_state" where
    "X = \<lparr>st_fs = \<lparr>entries = [(demo_target, Dir),
                              (child (child demo_target ''Others'') ''photo.JPG'', File),
                              (child demo_target ''notes.txt'', File),
                              (child demo_target ''archive'', Dir),
                              (child demo_target ''Others'', Dir)],
                   readonly = [], unsearchable = []\<rparr>,
        st_cache = [(''.txt'', ''Docs'' @ [CHR 0x00])],
        files_moved = 1, files_skipped = 0,
        st_log = [Info_scanning demo_target False,
                  Info_moved ''photo.JPG'' ''Others'' ''photo.JPG'']\<rparr>"
  have nul: "organize_files sim_os demo_fs demo_target demo_nul_types False =
      Some (Raised NonOSError X)"
    unfolding X_def by code_simp
  have q1: "iterdir_op sim_os (st_fs X) demo_target \<noteq> Inl NonOSError"
    unfolding X_def by code_simp
  have q2: "\<not> (\<exists>p. is_dir_op sim_os (st_fs X) p = Inl NonOSError \<or>
                   is_file_op sim_os (st_fs X) p = Inl NonOSError \<or>
                   exists_op sim_os (st_fs X) p = Inl NonOSError)"
    by (auto simp add: sim_os_def dest: sim_queries_oserror)
  from i3 nul q1 q2 have c: "\<exists>s p. mkdir_op sim_os s p = (st_fs X, Some NonOSError)"
    by blast
  have fin: "\<forall>s p. finite {N. exists_op sim_os s (candidate p N) = Inr True}"
    by (simp add: sim_os_def sim_candidates_finite)
  with i4 have d: "\<exists>r. organize_files sim_os demo_readonly_fs demo_target demo_types False = Some r"
    by blast
  define Y :: "sim_fs scan_state" where
    "Y = \<lparr>st_fs = demo_long_fs,
        st_cache = [(''.jpg'', ''Images''), (''.png'', ''Images''), (''.txt'', ''Documents'')],
        files_moved = 0, files_skipped = 0,
        st_log = [Info_scanning demo_target False]\<rparr>"
  have long: "organize_files sim_os demo_long_fs demo_target demo_types False =
      Some (Raised OSError Y)"
    unfolding Y_def by code_simp
  have q4: "iterdir_op sim_os (st_fs Y) demo_target \<noteq> Inl OSError"
    unfolding Y_def by code_simp
  from i5 long q4 have e: "\<exists>p. is_dir_op sim_os (st_fs Y) p = Inl OSError \<or>
               is_file_op sim_os (st_fs Y) p = Inl OSError \<or>
               exists_op sim_os (st_fs Y) p = Inl OSError"
    by blast
  from a have a': "scan sim_os demo_target demo_types False [?P, ?N, ?D] ?st0 =
      scan sim_os demo_target demo_types False [?N, ?D] ?st1"
    "process_item (sim_os\<lparr>move_op := ?mv\<rparr>) demo_target demo_types False ?P ?st0 =
        process_item sim_os demo_target demo_types False ?P ?st0"
    by (simp_all add: nm del: scan.simps)
  from b have b': "scan sim_os demo_target demo_types False [?N, ?D] ?st1 =
      scan sim_os demo_target demo_types False [?D] ?st2"
    by (simp add: nm numeral_2_eq_2 del: scan.simps)
  from s1 f1 m1 a' m2 v2 b' run nul c long e fin d show ?thesis by blast
qed

end
